theory Spec2Isabelle
  imports Main
begin

unbundle bit_operations_syntax

section \<open>Data model\<close>

text \<open>
  The shell's job-control engine (\<^verbatim>\<open>execute.c\<close>, \<^verbatim>\<open>signals.c\<close>) is embedded as
  functions over an explicit state. A \<open>proc\<close> is one pipeline stage, a \<open>job\<close> one pipeline.
  The structs are declared in \<^verbatim>\<open>ds/proc.h\<close>; the fields below are the ones the two source
  files read and write. An environment entry \<^verbatim>\<open>NAME\0VALUE\<close> is the pair of its two halves.
\<close>

record proc =
  argv :: "string list"
  env :: "(string \<times> string) list"
  fds :: "int list"
  pid :: int
  completed :: bool
  exit_code :: int

record io_spec =
  path :: "string option"
  oflag :: int

record job =
  procs :: "proc list"
  io :: "io_spec list"
  pgid :: int
  bkg :: bool

text \<open>
  A builtin binding: its kind tag and its function. The function pointers of
  \<^verbatim>\<open>builtin_funcs\<close> are the three constructors of \<open>proc_func\<close>. The kind enum is declared in
  \<^verbatim>\<open>execute.h\<close>; the sources only ever write \<open>CMD\<close>, every other tag is \<open>Other_kind\<close>.
\<close>

datatype proc_func = M_cd | M_exit | M_help

datatype builtin_kind = CMD | Other_kind nat

record builtin =
  type :: builtin_kind
  cmd :: proc_func

type_synonym hash_table = "(string \<times> builtin) list"

subsection \<open>The operating system and the shell's globals\<close>

text \<open>
  Every system call of the sources is a function on \<open>world\<close>. What the kernel decides (whether
  an \<^verbatim>\<open>open\<close> fails, what \<^verbatim>\<open>fork\<close> returns, which child \<^verbatim>\<open>waitpid\<close> reports) is read from
  a script of replies, one per call, so that each run of a source function is a function
  of the world it starts in; an exhausted script answers with a failure. Descriptor numbers
  are not scripted: POSIX hands out the lowest unused one. Each call is also appended to
  \<open>trace\<close>. The second half of \<open>world\<close> are the globals of the shell: \<^verbatim>\<open>interactive\<close>,
  \<^verbatim>\<open>exit_code\<close> (here \<open>g_exit_code\<close>, the name being taken by the field of \<open>proc\<close>),
  \<^verbatim>\<open>lookup_table\<close>, \<^verbatim>\<open>oldpwd\<close>, the handlers registered with \<^verbatim>\<open>atexit\<close>, and the Job
  Registry's active child and background processes.
\<close>

datatype reply = Ok | Err nat

datatype fork_reply = Fork_failed nat | Fork_parent int | Fork_child int

datatype event =
    Ev_open string int int int
  | Ev_close int
  | Ev_pipe int int
  | Ev_fork int
  | Ev_setpgid int int
  | Ev_tcsetpgrp int int
  | Ev_dup2 int int
  | Ev_setenv string string
  | Ev_execvp "string list"
  | Ev_write int string
  | Ev_waitpid int int int
  | Ev_chdir string
  | Ev_stdout string
  | Ev_stderr string
  | Ev_atexit
  | Ev_free_table
  | Ev_reset_ignored_signals
  | Ev_wait_for_job
  | Ev_send_to_background bool
  | Ev_send_to_foreground bool
  | Ev_format_job_info string
  | Ev_del_bkg_proc int
  | Ev_reset_active_child

record world =
  open_fds :: "int list"
  errno :: nat
  self_pid :: int
  pgrp :: "(int \<times> int) list"
  environ :: "(string \<times> string) list"
  cwd :: string
  fs_dirs :: "string list"
  trace :: "event list"
  open_script :: "reply list"
  pipe_script :: "reply list"
  fork_script :: "fork_reply list"
  exec_script :: "reply list"
  alloc_script :: "reply list"
  wait_script :: "(int \<times> int) list"
  interactive :: bool
  g_exit_code :: int
  lookup_table :: hash_table
  atexit_count :: nat
  oldpwd :: string
  active_child :: int
  bkg_procs :: "(int \<times> nat) list"

text \<open>
  The macros of \<^verbatim>\<open>macros.h\<close>, \<^verbatim>\<open>marcel.h\<close> and \<^verbatim>\<open>jobs.h\<close> whose values the sources
  use but do not define, and libc's \<^verbatim>\<open>strerror\<close>, are parameters of the model.
\<close>

record config =
  M_FAILED_EXEC :: int
  M_FAILED_IO :: int
  SIGINT_EXIT_CODE :: int
  SHELL_TERM :: int
  VERSION :: string
  strerror :: "nat \<Rightarrow> string"

definition log_event :: "event \<Rightarrow> world \<Rightarrow> world" where
  "log_event e w = w\<lparr>trace := trace w @ [e]\<rparr>"

text \<open>Decimal rendering, for the \<^verbatim>\<open>%zu\<close> and \<^verbatim>\<open>%d\<close> conversions of \<^verbatim>\<open>printf\<close>.\<close>

fun show_nat :: "nat \<Rightarrow> string" where
  "show_nat n =
     (if n < 10 then [''0123456789'' ! n]
      else show_nat (n div 10) @ [''0123456789'' ! (n mod 10)])"

declare show_nat.simps [simp del]

definition show_int :: "int \<Rightarrow> string" where
  "show_int i = (if i < 0 then CHR ''-'' # show_nat (nat (- i)) else show_nat (nat i))"

text \<open>
  \<^verbatim>\<open>Stopif(cond, action, fmt, ...)\<close> of \<^verbatim>\<open>macros.h\<close> prints the formatted message on the
  standard error stream and then runs the action; \<open>stopif_msg\<close> is the printing half.
\<close>

definition stopif_msg :: "string \<Rightarrow> world \<Rightarrow> world" where
  "stopif_msg msg w = log_event (Ev_stderr msg) w"

definition puts :: "string \<Rightarrow> world \<Rightarrow> world" where
  "puts s w = log_event (Ev_stdout (s @ [CHR 0x0A])) w"

section \<open>The signal-driven reaper (signals.c)\<close>

definition SIGINT :: int where "SIGINT = 2"
definition SIGQUIT :: int where "SIGQUIT = 3"
definition SIGCHLD :: int where "SIGCHLD = 17"

definition WNOHANG :: int where "WNOHANG = 1"
definition WUNTRACED :: int where "WUNTRACED = 2"

text \<open>The status macros of \<^verbatim>\<open>sys/wait.h\<close>.\<close>

definition WEXITSTATUS :: "int \<Rightarrow> int" where
  "WEXITSTATUS status = drop_bit 8 (status AND 0xFF00)"

definition WIFSTOPPED :: "int \<Rightarrow> bool" where
  "WIFSTOPPED status = (status AND 0xFF = 0x7F)"

definition WIFEXITED :: "int \<Rightarrow> bool" where
  "WIFEXITED status = (status AND 0x7F = 0)"

definition W_EXITCODE :: "int \<Rightarrow> int \<Rightarrow> int" where
  "W_EXITCODE ret sig = push_bit 8 ret OR sig"

definition W_STOPCODE :: "int \<Rightarrow> int" where
  "W_STOPCODE sig = push_bit 8 sig OR 0x7F"

text \<open>
  \<^verbatim>\<open>waitpid(-1, &status, options)\<close>: the next entry of the script is the pid returned and
  the status stored; with no entry left there is no child (\<open>-1\<close>).
\<close>

definition waitpid :: "int \<Rightarrow> int \<Rightarrow> world \<Rightarrow> world \<times> int \<times> int" where
  "waitpid which options w =
     (case wait_script w of
        [] \<Rightarrow> (log_event (Ev_waitpid which options (- 1)) w, - 1, 0)
      | (p, status) # rest \<Rightarrow>
          (log_event (Ev_waitpid which options p) (w\<lparr>wait_script := rest\<rparr>), p, status))"

text \<open>
  Modelled from the spec: the Job Registry's \<^verbatim>\<open>get_active_child\<close>,
  \<^verbatim>\<open>reset_active_child\<close> and \<^verbatim>\<open>del_bkg_proc\<close> (\<^verbatim>\<open>children.h\<close>), which are not among the
  sources. The spec gives them as "the tracked foreground child's pid", clearing that
  tracking, and "remove and identify a background job by pid". The registry is the list
  \<open>bkg_procs\<close> of pids with their job numbers; a pid it does not hold yields job number 0.
\<close>

definition get_active_child :: "world \<Rightarrow> int" where
  "get_active_child w = active_child w"

definition reset_active_child :: "world \<Rightarrow> world" where
  "reset_active_child w = log_event Ev_reset_active_child (w\<lparr>active_child := 0\<rparr>)"

definition del_bkg_proc :: "int \<Rightarrow> world \<Rightarrow> world \<times> nat" where
  "del_bkg_proc p w =
     (log_event (Ev_del_bkg_proc p) (w\<lparr>bkg_procs := filter (\<lambda>e. fst e \<noteq> p) (bkg_procs w)\<rparr>),
      case map_of (bkg_procs w) p of None \<Rightarrow> 0 | Some n \<Rightarrow> n)"

definition completed_msg :: "nat \<Rightarrow> int \<Rightarrow> string" where
  "completed_msg job_num status =
     ''['' @ show_nat job_num @ ''] completed. Exit: '' @ show_int (WEXITSTATUS status) @ [CHR 0x0A]"

text \<open>
  The \<^verbatim>\<open>for (;;)\<close> loop of the \<^verbatim>\<open>SIGCHLD\<close> case. Each turn takes one entry of the wait
  script, and the loop stops on \<open>0\<close> and on \<open>-1\<close>, which is also what an empty script gives.
\<close>

function reap_loop :: "bool \<Rightarrow> world \<Rightarrow> world" where
  "reap_loop first_iter w =
     (case waitpid (- 1) (WNOHANG OR WUNTRACED) w of
        (w1, p, status) \<Rightarrow>
          if p = 0 then w1
          else if p = - 1 then (if first_iter then reset_active_child w1 else w1)
          else if p = get_active_child w1 then reap_loop False (reset_active_child w1)
          else (case del_bkg_proc p w1 of
                  (w2, job_num) \<Rightarrow>
                    reap_loop False (log_event (Ev_stdout (completed_msg job_num status)) w2)))"
  by pat_completeness auto
termination
proof (relation "measure (\<lambda>(first_iter, w). length (wait_script w))")
  show "wf (measure (\<lambda>(first_iter, w). length (wait_script w)))" by simp
next
  fix first_iter :: bool and w w1 :: world and x p status
  assume "(w1, x) = waitpid (- 1) (WNOHANG OR WUNTRACED) w" "(p, status) = x"
    "p \<noteq> 0" "p \<noteq> - 1" "p = get_active_child w1"
  then show "((False, reset_active_child w1), first_iter, w)
      \<in> measure (\<lambda>(first_iter, w). length (wait_script w))"
    by (auto simp: waitpid_def reset_active_child_def log_event_def split: list.splits)
next
  fix first_iter :: bool and w w1 w2 :: world and x p status y job_num
  assume "(w1, x) = waitpid (- 1) (WNOHANG OR WUNTRACED) w" "(p, status) = x"
    "p \<noteq> 0" "p \<noteq> - 1" "p \<noteq> get_active_child w1"
    "(w2, job_num) = del_bkg_proc p w1"
  then show "((False, log_event (Ev_stdout (completed_msg job_num status)) w2), first_iter, w)
      \<in> measure (\<lambda>(first_iter, w). length (wait_script w))"
    by (auto simp: waitpid_def del_bkg_proc_def log_event_def split: list.splits)
qed

declare reap_loop.simps [simp del]

text \<open>
  \<^verbatim>\<open>handle_signals\<close>. The \<^verbatim>\<open>SIGINT\<close> case leaves through \<^verbatim>\<open>siglongjmp(_sigbuf, 1)\<close>, so the
  handler's result says whether it returned or jumped.
\<close>

datatype handler_exit = Handler_returned | Long_jumped int

definition handle_signals :: "config \<Rightarrow> int \<Rightarrow> world \<Rightarrow> world \<times> handler_exit" where
  "handle_signals m signo w =
     (if signo = SIGINT then
        (puts '''' (w\<lparr>g_exit_code := SIGINT_EXIT_CODE m\<rparr>), Long_jumped 1)
      else if signo = SIGQUIT then
        (puts (CHR 0x0A # ''Quit (core dumped)'') w, Handler_returned)
      else if signo = SIGCHLD then
        (reap_loop True w, Handler_returned)
      else (w, Handler_returned))"

section \<open>The builtin table and the launcher (execute.c)\<close>

subsection \<open>System calls\<close>

text \<open>
  \<open>open_fds\<close> is the descriptor table of the process that runs the code (the shell, or
  the child after \<^verbatim>\<open>fork\<close> has returned 0 in it). A successful \<^verbatim>\<open>open\<close> or \<^verbatim>\<open>pipe\<close> takes
  the lowest descriptor numbers not in use.
\<close>

fun lowest_unused_from :: "nat \<Rightarrow> int \<Rightarrow> int list \<Rightarrow> int" where
  "lowest_unused_from 0 c used = c"
| "lowest_unused_from (Suc n) c used =
     (if c \<in> set used then lowest_unused_from n (c + 1) used else c)"

definition lowest_unused :: "int list \<Rightarrow> int" where
  "lowest_unused used = lowest_unused_from (length used) 0 used"

definition EMFILE :: nat where "EMFILE = 24"
definition EAGAIN :: nat where "EAGAIN = 11"
definition ENOMEM :: nat where "ENOMEM = 12"
definition ENOENT :: nat where "ENOENT = 2"

definition sys_open :: "string \<Rightarrow> int \<Rightarrow> int \<Rightarrow> world \<Rightarrow> world \<times> int" where
  "sys_open pathname flags mode w =
     (case open_script w of
        Ok # rest \<Rightarrow>
          (let fd = lowest_unused (open_fds w) in
           (log_event (Ev_open pathname flags mode fd)
              (w\<lparr>open_script := rest, open_fds := fd # open_fds w\<rparr>), fd))
      | Err e # rest \<Rightarrow>
          (log_event (Ev_open pathname flags mode (- 1)) (w\<lparr>open_script := rest, errno := e\<rparr>),
           - 1)
      | [] \<Rightarrow> (log_event (Ev_open pathname flags mode (- 1)) (w\<lparr>errno := EMFILE\<rparr>), - 1))"

definition close :: "int \<Rightarrow> world \<Rightarrow> world" where
  "close fd w = log_event (Ev_close fd) (w\<lparr>open_fds := removeAll fd (open_fds w)\<rparr>)"

text \<open>\<^verbatim>\<open>pipe(fd)\<close>: on success the pair (read end, write end); on failure nothing is stored.\<close>

definition pipe :: "world \<Rightarrow> world \<times> (int \<times> int) option" where
  "pipe w =
     (case pipe_script w of
        Ok # rest \<Rightarrow>
          (let r = lowest_unused (open_fds w); wr = lowest_unused (r # open_fds w) in
           (log_event (Ev_pipe r wr)
              (w\<lparr>pipe_script := rest, open_fds := wr # r # open_fds w\<rparr>), Some (r, wr)))
      | Err e # rest \<Rightarrow> (w\<lparr>pipe_script := rest, errno := e\<rparr>, None)
      | [] \<Rightarrow> (w\<lparr>errno := EMFILE\<rparr>, None))"

text \<open>
  \<^verbatim>\<open>fork\<close>: \<open>Fork_parent c\<close> is the return in the parent of a new child \<open>c\<close>, \<open>Fork_child c\<close>
  the return of 0 in that child, whose run the model then follows (its pid is \<open>c\<close>, its
  descriptor table a copy of the parent's). The child starts in its parent's process group.
  A pid is positive; a script entry with any other pid is read as a failed \<^verbatim>\<open>fork\<close>.
\<close>

definition inherit_pgrp :: "int \<Rightarrow> world \<Rightarrow> (int \<times> int) list" where
  "inherit_pgrp c w =
     (case map_of (pgrp w) (self_pid w) of None \<Rightarrow> pgrp w | Some g \<Rightarrow> (c, g) # pgrp w)"

definition fork_failure :: "nat \<Rightarrow> world \<Rightarrow> world \<times> int" where
  "fork_failure e w = (log_event (Ev_fork (- 1)) (w\<lparr>errno := e\<rparr>), - 1)"

definition fork :: "world \<Rightarrow> world \<times> int" where
  "fork w =
     (case fork_script w of
        Fork_parent c # rest \<Rightarrow>
          if 0 < c
          then (log_event (Ev_fork c) (w\<lparr>fork_script := rest, pgrp := inherit_pgrp c w\<rparr>), c)
          else fork_failure EAGAIN (w\<lparr>fork_script := rest\<rparr>)
      | Fork_child c # rest \<Rightarrow>
          if 0 < c
          then (log_event (Ev_fork 0)
                  (w\<lparr>fork_script := rest, pgrp := inherit_pgrp c w, self_pid := c\<rparr>), 0)
          else fork_failure EAGAIN (w\<lparr>fork_script := rest\<rparr>)
      | Fork_failed e # rest \<Rightarrow> fork_failure e (w\<lparr>fork_script := rest\<rparr>)
      | [] \<Rightarrow> fork_failure EAGAIN w)"

text \<open>
  \<^verbatim>\<open>setpgid(pid, pgid)\<close>: a zero \<open>pid\<close> means the caller, a zero \<open>pgid\<close> the pid of the
  process moved. The sources ignore the call's result, and the model lets it succeed.
  \<^verbatim>\<open>tcsetpgrp\<close> is recorded only.
\<close>

definition setpgid :: "int \<Rightarrow> int \<Rightarrow> world \<Rightarrow> world" where
  "setpgid p g w =
     (let target = (if p = 0 then self_pid w else p);
          grp = (if g = 0 then target else g)
      in log_event (Ev_setpgid p g) (w\<lparr>pgrp := (target, grp) # pgrp w\<rparr>))"

definition tcsetpgrp :: "int \<Rightarrow> int \<Rightarrow> world \<Rightarrow> world" where
  "tcsetpgrp fd g w = log_event (Ev_tcsetpgrp fd g) w"

definition dup2 :: "int \<Rightarrow> int \<Rightarrow> world \<Rightarrow> world" where
  "dup2 oldfd newfd w =
     log_event (Ev_dup2 oldfd newfd)
       (if oldfd \<in> set (open_fds w) \<and> newfd \<notin> set (open_fds w)
        then w\<lparr>open_fds := newfd # open_fds w\<rparr> else w)"

definition getenv :: "string \<Rightarrow> world \<Rightarrow> string option" where
  "getenv name w = map_of (environ w) name"

definition unsetenv :: "string \<Rightarrow> world \<Rightarrow> world" where
  "unsetenv name w = w\<lparr>environ := filter (\<lambda>e. fst e \<noteq> name) (environ w)\<rparr>"

text \<open>\<^verbatim>\<open>setenv(name, value, 1)\<close> fails on an empty name and on one that holds \<^verbatim>\<open>=\<close>.\<close>

definition setenv :: "string \<Rightarrow> string \<Rightarrow> world \<Rightarrow> world \<times> int" where
  "setenv name val w =
     (if name = [] \<or> CHR ''='' \<in> set name then (w, - 1)
      else (log_event (Ev_setenv name val)
              (w\<lparr>environ := (name, val) # filter (\<lambda>e. fst e \<noteq> name) (environ w)\<rparr>), 0))"

text \<open>\<^verbatim>\<open>chdir\<close> succeeds on the paths of \<open>fs_dirs\<close>; \<^verbatim>\<open>getcwd\<close> reads \<open>cwd\<close>.\<close>

definition chdir :: "string \<Rightarrow> world \<Rightarrow> world \<times> int" where
  "chdir dir w =
     (if dir \<in> set (fs_dirs w) then (log_event (Ev_chdir dir) (w\<lparr>cwd := dir\<rparr>), 0)
      else (w\<lparr>errno := ENOENT\<rparr>, - 1))"

text \<open>
  An allocating call (\<^verbatim>\<open>malloc\<close>, and the allocation inside \<^verbatim>\<open>add_node\<close> and \<^verbatim>\<open>atexit\<close>)
  takes its reply from \<open>alloc_script\<close>.
\<close>

definition alloc :: "world \<Rightarrow> world \<times> bool" where
  "alloc w =
     (case alloc_script w of
        Ok # rest \<Rightarrow> (w\<lparr>alloc_script := rest\<rparr>, True)
      | Err e # rest \<Rightarrow> (w\<lparr>alloc_script := rest, errno := e\<rparr>, False)
      | [] \<Rightarrow> (w\<lparr>errno := ENOMEM\<rparr>, False))"

definition atexit :: "world \<Rightarrow> world \<times> int" where
  "atexit w =
     (case alloc w of
        (w1, True) \<Rightarrow> (log_event Ev_atexit (w1\<lparr>atexit_count := Suc (atexit_count w1)\<rparr>), 0)
      | (w1, False) \<Rightarrow> (w1, - 1))"

subsection \<open>The builtin table\<close>

text \<open>
  Modelled from the spec: the hash table of \<^verbatim>\<open>ds/hash_table.h\<close> (\<^verbatim>\<open>new_table\<close>,
  \<^verbatim>\<open>add_node\<close>, \<^verbatim>\<open>find_node\<close>, \<^verbatim>\<open>free_table\<close>), which is not among the sources. The spec
  gives "register(name, function)" and "lookup(name, predicate) -> Option<function>
  filtered by a capability predicate". The table is the list of its bindings, newest first;
  \<open>add_node\<close> returns 0 on success; \<open>find_node\<close> returns the first binding of the key that
  passes the filter.
\<close>

definition new_table :: hash_table where
  "new_table = []"

definition add_node :: "string \<Rightarrow> builtin \<Rightarrow> world \<Rightarrow> world \<times> int" where
  "add_node k v w =
     (case alloc w of
        (w1, True) \<Rightarrow> (w1\<lparr>lookup_table := (k, v) # lookup_table w1\<rparr>, 0)
      | (w1, False) \<Rightarrow> (w1, 1))"

fun find_node :: "string \<Rightarrow> (builtin \<Rightarrow> bool) \<Rightarrow> hash_table \<Rightarrow> builtin option" where
  "find_node k flt [] = None"
| "find_node k flt ((k', v) # rest) =
     (if k' = k \<and> flt v then Some v else find_node k flt rest)"

definition free_table :: "world \<Rightarrow> world" where
  "free_table w = log_event Ev_free_table (w\<lparr>lookup_table := []\<rparr>)"

definition builtin_names :: "string list" where
  "builtin_names = [''cd'', ''exit'', ''help'']"

definition builtin_funcs :: "proc_func list" where
  "builtin_funcs = [M_cd, M_exit, M_help]"

text \<open>
  \<^verbatim>\<open>initialize_builtins\<close>. \<^verbatim>\<open>Assert_alloc\<close> of \<^verbatim>\<open>macros.h\<close> stops the shell when the
  allocation failed: the function then does not return (\<open>Init_aborted\<close>).
\<close>

datatype init_result = Init_returned bool | Init_aborted

fun register_builtins :: "(string \<times> proc_func) list \<Rightarrow> world \<Rightarrow> world \<times> init_result option" where
  "register_builtins [] w = (w, None)"
| "register_builtins ((name, f) # rest) w =
     (case alloc w of
        (w1, False) \<Rightarrow> (w1, Some Init_aborted)
      | (w1, True) \<Rightarrow>
          (case add_node name \<lparr>type = CMD, cmd = f\<rparr> w1 of
             (w2, r) \<Rightarrow>
               if r \<noteq> 0 then (w2, Some (Init_returned False))
               else register_builtins rest w2))"

definition initialize_builtins :: "world \<Rightarrow> world \<times> init_result" where
  "initialize_builtins w =
     (case register_builtins (zip builtin_names builtin_funcs) (w\<lparr>lookup_table := new_table\<rparr>) of
        (w1, Some r) \<Rightarrow> (w1, r)
      | (w1, None) \<Rightarrow>
          (case atexit w1 of
             (w2, r) \<Rightarrow> if r \<noteq> 0 then (w2, Init_returned False) else (w2, Init_returned True)))"

text \<open>\<^verbatim>\<open>cleanup_builtins\<close>, the handler that \<^verbatim>\<open>atexit\<close> registers.\<close>

definition cleanup_builtins :: "world \<Rightarrow> world" where
  "cleanup_builtins w = free_table w"

definition filter_command :: "builtin \<Rightarrow> bool" where
  "filter_command b = (type b = CMD)"

subsection \<open>Builtins and exec\<close>

text \<open>
  How control leaves \<^verbatim>\<open>launch_job\<close>: by a \<^verbatim>\<open>return\<close>; by \<^verbatim>\<open>exit\<close> of the whole shell (the
  builtin \<^verbatim>\<open>exit\<close>); in a forked child, by the new program image or by \<^verbatim>\<open>_Exit\<close>; or by
  \<open>Fault\<close>, where C leaves the behaviour undefined (a null or out-of-bounds read, an
  uninitialised value).
\<close>

datatype outcome =
    Returned int
  | Shell_exited int
  | Child_exec "string list"
  | Child_exited int
  | Fault

text \<open>\<^verbatim>\<open>FILE_MASK\<close> is the octal \<^verbatim>\<open>0666\<close>.\<close>

definition FILE_MASK :: int where
  "FILE_MASK = 438"

definition help_msg :: "config \<Rightarrow> string" where
  "help_msg m =
     ''Marcel the Shell (with shoes on) v. '' @ VERSION m @ [CHR 0x0A] @
     ''Written by Chad Sharp'' @ [CHR 0x0A] @
     [CHR 0x0A] @
     ''This shell only fights when provoked.'' @ [CHR 0x0A]"

text \<open>
  \<^verbatim>\<open>m_cd\<close>. With neither \<^verbatim>\<open>argv[1]\<close> nor \<^verbatim>\<open>HOME\<close> the \<^verbatim>\<open>strcmp\<close> reads a null pointer.
  \<^verbatim>\<open>oldpwd\<close> is overwritten by \<^verbatim>\<open>getcwd\<close> before the directory change is tried. The
  paths of the model are absolute and resolved, so that \<open>cwd\<close> after a change is the path
  given; \<^verbatim>\<open>getcwd\<close> and the \<^verbatim>\<open>strdup\<close> of \<^verbatim>\<open>cd -\<close> are taken to succeed.
\<close>

definition m_cd :: "config \<Rightarrow> proc \<Rightarrow> world \<Rightarrow> world \<times> (outcome + int)" where
  "m_cd m p w =
     (case (if 1 < length (argv p) then Some (argv p ! 1) else getenv ''HOME'' w) of
        None \<Rightarrow> (w, Inl Fault)
      | Some dir0 \<Rightarrow>
          (let old = (dir0 = ''-'') in
           if old \<and> oldpwd w = [] then (stopif_msg ''OLDPWD not set'' w, Inr 1)
           else
             (let dir = (if old then oldpwd w else dir0);
                  w1 = w\<lparr>oldpwd := cwd w\<rparr>
              in case chdir dir w1 of
                   (w2, r) \<Rightarrow>
                     if r = - 1 then (stopif_msg (strerror m (errno w2)) w2, Inr 1)
                     else (w2, Inr 0))))"

text \<open>
  \<^verbatim>\<open>m_exit\<close>: \<^verbatim>\<open>exit(exit_code)\<close> runs the registered \<^verbatim>\<open>atexit\<close> handlers, each of which is
  \<^verbatim>\<open>cleanup_builtins\<close>, and ends the shell.
\<close>

definition run_atexit :: "world \<Rightarrow> world" where
  "run_atexit w = ((cleanup_builtins ^^ atexit_count w) w)\<lparr>atexit_count := 0\<rparr>"

definition m_exit :: "proc \<Rightarrow> world \<Rightarrow> world \<times> (outcome + int)" where
  "m_exit p w = (run_atexit w, Inl (Shell_exited (g_exit_code w)))"

text \<open>\<^verbatim>\<open>m_help\<close> writes the banner, with its terminating zero byte, to \<^verbatim>\<open>p->fds[1]\<close>.\<close>

definition m_help :: "config \<Rightarrow> proc \<Rightarrow> world \<Rightarrow> world \<times> (outcome + int)" where
  "m_help m p w = (log_event (Ev_write (fds p ! 1) (help_msg m @ [CHR 0x00])) w, Inr 0)"

fun call_builtin :: "config \<Rightarrow> proc_func \<Rightarrow> proc \<Rightarrow> world \<Rightarrow> world \<times> (outcome + int)" where
  "call_builtin m M_cd p w = m_cd m p w"
| "call_builtin m M_exit p w = m_exit p w"
| "call_builtin m M_help p w = m_help m p w"

text \<open>\<^verbatim>\<open>exec_proc\<close>, run by the child only. It does not return.\<close>

fun apply_env :: "(string \<times> string) list \<Rightarrow> world \<Rightarrow> world" where
  "apply_env [] w = w"
| "apply_env ((e, val) # rest) w =
     (case setenv e val (unsetenv e w) of
        (w1, r) \<Rightarrow>
          apply_env rest
            (if r = - 1
             then stopif_msg (''Could not set the following variable '' @ e @ '' to '' @ val) w1
             else w1))"

fun dup_fds :: "int list \<Rightarrow> nat \<Rightarrow> world \<Rightarrow> world" where
  "dup_fds [] i w = w"
| "dup_fds (fd # rest) i w = dup_fds rest (Suc i) (dup2 fd (int i) w)"

definition execvp :: "string list \<Rightarrow> world \<Rightarrow> world \<times> int" where
  "execvp args w =
     (case exec_script w of
        Ok # rest \<Rightarrow> (log_event (Ev_execvp args) (w\<lparr>exec_script := rest\<rparr>), 0)
      | Err e # rest \<Rightarrow> (w\<lparr>exec_script := rest, errno := e\<rparr>, - 1)
      | [] \<Rightarrow> (w\<lparr>errno := ENOENT\<rparr>, - 1))"

definition exec_proc :: "config \<Rightarrow> proc \<Rightarrow> world \<Rightarrow> world \<times> outcome" where
  "exec_proc m p w =
     (let w1 = dup_fds (fds p) 0 (apply_env (env p) w) in
      case execvp (argv p) w1 of
        (w2, r) \<Rightarrow>
          if r = - 1
          then (stopif_msg (strerror m (errno w2) @ '': '' @ hd (argv p)) w2,
                Child_exited (M_FAILED_EXEC m))
          else (w2, Child_exec (argv p)))"

text \<open>
  Modelled from the spec: \<^verbatim>\<open>reset_ignored_signals\<close> (\<^verbatim>\<open>signals.h\<close>) and the Job Registry's
  \<^verbatim>\<open>wait_for_job\<close>, \<^verbatim>\<open>send_to_background\<close>, \<^verbatim>\<open>send_to_foreground\<close> and \<^verbatim>\<open>format_job_info\<close>
  (\<^verbatim>\<open>jobs.h\<close>), which are not among the sources ("external collaborators"). Each call is
  recorded in the trace with its arguments; the model gives it no other effect.
\<close>

definition reset_ignored_signals :: "world \<Rightarrow> world" where
  "reset_ignored_signals w = log_event Ev_reset_ignored_signals w"

definition wait_for_job :: "job \<Rightarrow> world \<Rightarrow> world" where
  "wait_for_job j w = log_event Ev_wait_for_job w"

definition send_to_background :: "job \<Rightarrow> bool \<Rightarrow> world \<Rightarrow> world" where
  "send_to_background j resume w = log_event (Ev_send_to_background resume) w"

definition send_to_foreground :: "job \<Rightarrow> bool \<Rightarrow> world \<Rightarrow> world" where
  "send_to_foreground j resume w = log_event (Ev_send_to_foreground resume) w"

definition format_job_info :: "job \<Rightarrow> string \<Rightarrow> world \<Rightarrow> world" where
  "format_job_info j msg w = log_event (Ev_format_job_info msg) w"

subsection \<open>launch\_job\<close>

text \<open>\<^verbatim>\<open>fd_cleanup(fd_arr, n)\<close> closes, among the first \<open>n\<close> entries, those that differ from their index.\<close>

fun fd_cleanup_loop :: "int list \<Rightarrow> nat \<Rightarrow> world \<Rightarrow> world" where
  "fd_cleanup_loop [] i w = w"
| "fd_cleanup_loop (fd # rest) i w =
     fd_cleanup_loop rest (Suc i) (if fd \<noteq> int i then close fd w else w)"

definition fd_cleanup :: "int list \<Rightarrow> nat \<Rightarrow> world \<Rightarrow> world" where
  "fd_cleanup fd_arr n w = fd_cleanup_loop (take n fd_arr) 0 w"

text \<open>The macro \<^verbatim>\<open>Set_proc_group(JOB, PID, PGID)\<close>, with \<^verbatim>\<open>PGID\<close> the job's \<^verbatim>\<open>pgid\<close> field.\<close>

definition Set_proc_group :: "config \<Rightarrow> job \<Rightarrow> int \<Rightarrow> world \<Rightarrow> world \<times> job" where
  "Set_proc_group m j p w =
     (if interactive w then
        (let j1 = (if pgid j = 0 then j\<lparr>pgid := p\<rparr> else j);
             w1 = setpgid p (pgid j1) w
         in (if \<not> bkg j1 then tcsetpgrp (SHELL_TERM m) (pgid j1) w1 else w1, j1))
      else (w, j))"

text \<open>
  The first loop of \<^verbatim>\<open>launch_job\<close>: the redirections. \<open>Inl\<close> is the early
  \<^verbatim>\<open>return M_FAILED_IO\<close>, \<open>Inr\<close> the array \<^verbatim>\<open>io_fd\<close> when the loop is through.
\<close>

fun open_io :: "config \<Rightarrow> io_spec list \<Rightarrow> nat \<Rightarrow> int list \<Rightarrow> world \<Rightarrow> world \<times> (int + int list)" where
  "open_io m [] i io_fd w = (w, Inr io_fd)"
| "open_io m (spec # rest) i io_fd w =
     (case (case path spec of
              None \<Rightarrow> (w, io_fd)
            | Some pathname \<Rightarrow>
                (case sys_open pathname (oflag spec) FILE_MASK w of
                   (w1, fd) \<Rightarrow> (w1, io_fd[i := fd]))) of
        (w1, io_fd1) \<Rightarrow>
          if io_fd1 ! i = - 1
          then (fd_cleanup io_fd1 i (stopif_msg (strerror m (errno w1)) w1), Inl (M_FAILED_IO m))
          else open_io m rest (Suc i) io_fd1 w1)"

definition set_fd :: "nat \<Rightarrow> nat \<Rightarrow> int \<Rightarrow> job \<Rightarrow> job" where
  "set_fd k i fd j = j\<lparr>procs := (procs j)[k := (procs j ! k)\<lparr>fds := (fds (procs j ! k))[i := fd]\<rparr>]\<rparr>"

text \<open>
  The body of the second loop for the process at index \<open>k\<close>, in two halves. \<open>wire_pipe\<close>
  is the \<^verbatim>\<open>if (p_p != proc_end - 1)\<close> block; after a failed \<^verbatim>\<open>pipe\<close>, whose result the source
  does not test, the two descriptors copied are uninitialised.
\<close>

definition wire_pipe :: "nat \<Rightarrow> nat \<Rightarrow> world \<Rightarrow> job \<Rightarrow> world \<times> job \<times> bool" where
  "wire_pipe n k w j =
     (if k \<noteq> n - 1 then
        (case pipe w of
           (w1, Some (r, wr)) \<Rightarrow> (w1, set_fd (Suc k) 0 r (set_fd k 1 wr j), True)
         | (w1, None) \<Rightarrow> (w1, j, False))
      else (w, j, True))"

text \<open>
  \<open>launch_proc\<close> is the lookup and the \<^verbatim>\<open>if (b) ... else ...\<close> that follows it. The result
  \<open>None\<close> means that the loop goes on; \<open>Some\<close> is the way control left \<^verbatim>\<open>launch_job\<close>.
\<close>

definition launch_proc :: "config \<Rightarrow> nat \<Rightarrow> world \<Rightarrow> job \<Rightarrow> world \<times> job \<times> outcome option" where
  "launch_proc m k w j =
     (let p = procs j ! k in
      case argv p of
        [] \<Rightarrow> (w, j, Some Fault)
      | a0 # args \<Rightarrow>
          (case find_node a0 filter_command (lookup_table w) of
             Some b \<Rightarrow>
               (case call_builtin m (cmd b) p w of
                  (w1, Inr r) \<Rightarrow>
                    (w1, j\<lparr>procs := (procs j)[k := p\<lparr>exit_code := r, completed := True\<rparr>]\<rparr>, None)
                | (w1, Inl out) \<Rightarrow> (w1, j, Some out))
           | None \<Rightarrow>
               (case fork w of
                  (w1, child) \<Rightarrow>
                    if child < 0 then
                      (stopif_msg (''Could not fork process: '' @ strerror m (errno w1)) w1, j,
                       Some (Returned (M_FAILED_EXEC m)))
                    else if child = 0 then
                      (case Set_proc_group m j child w1 of
                         (w2, j2) \<Rightarrow>
                           (case exec_proc m p (reset_ignored_signals w2) of
                              (w3, out) \<Rightarrow> (w3, j2, Some out)))
                    else
                      (case Set_proc_group m j child w1 of
                         (w2, j2) \<Rightarrow>
                           (w2, j2\<lparr>procs := (procs j2)[k := (procs j2 ! k)\<lparr>pid := child\<rparr>]\<rparr>,
                            None)))))"

function launch_procs :: "config \<Rightarrow> nat \<Rightarrow> nat \<Rightarrow> world \<Rightarrow> job \<Rightarrow> world \<times> job \<times> outcome option" where
  "launch_procs m n k w j =
     (if k < n then
        (case wire_pipe n k w j of
           (w1, j1, False) \<Rightarrow> (w1, j1, Some Fault)
         | (w1, j1, True) \<Rightarrow>
             (case launch_proc m k w1 j1 of
                (w2, j2, Some out) \<Rightarrow> (w2, j2, Some out)
              | (w2, j2, None) \<Rightarrow>
                  launch_procs m n (Suc k) (fd_cleanup (fds (procs j2 ! k)) 3 w2) j2))
      else (w, j, None))"
  by pat_completeness auto
termination
  by (relation "measure (\<lambda>(m, n, k, w, j). n - k)") auto

declare launch_procs.simps [simp del]

text \<open>The closing \<^verbatim>\<open>if (!interactive) ... else if (j->bkg) ... else ...\<close>.\<close>

definition dispose :: "job \<Rightarrow> world \<Rightarrow> world" where
  "dispose j w =
     (if \<not> interactive w then wait_for_job j w
      else if bkg j then format_job_info j ''launched'' (send_to_background j False w)
      else send_to_foreground j False w)"

text \<open>
  \<^verbatim>\<open>launch_job\<close>. With no process in the job, \<^verbatim>\<open>j->procs[0]\<close> and \<^verbatim>\<open>proc_end[-1]\<close> are
  read out of bounds.
\<close>

definition bind_io :: "int list \<Rightarrow> job \<Rightarrow> job" where
  "bind_io io_fd j =
     (let n = length (procs j) in
      set_fd (n - 1) 2 (io_fd ! 2) (set_fd (n - 1) 1 (io_fd ! 1) (set_fd 0 0 (io_fd ! 0) j)))"

definition launch_job :: "config \<Rightarrow> world \<Rightarrow> job \<Rightarrow> world \<times> job \<times> outcome" where
  "launch_job m w j =
     (case open_io m (io j) 0 [0, 1, 2] w of
        (w1, Inl code) \<Rightarrow> (w1, j, Returned code)
      | (w1, Inr io_fd) \<Rightarrow>
          if procs j = [] then (w1, j, Fault)
          else
            (case launch_procs m (length (procs j)) 0 w1 (bind_io io_fd j) of
               (w2, j2, Some out) \<Rightarrow> (w2, j2, out)
             | (w2, j2, None) \<Rightarrow> (dispose j2 w2, j2, Returned 0)))"

text \<open>
  "Every launch step succeeds": the redirections are opened and the second loop runs
  through all processes.
\<close>

definition launch_completes :: "config \<Rightarrow> world \<Rightarrow> job \<Rightarrow> bool" where
  "launch_completes m w j =
     (case open_io m (io j) 0 [0, 1, 2] w of
        (w1, Inl code) \<Rightarrow> False
      | (w1, Inr io_fd) \<Rightarrow>
          procs j \<noteq> [] \<and>
          snd (snd (launch_procs m (length (procs j)) 0 w1 (bind_io io_fd j))) = None)"

section \<open>Notions used in the statements\<close>

subsection \<open>Reading a trace and a wait script\<close>

fun is_poll :: "event \<Rightarrow> bool" where
  "is_poll (Ev_waitpid which options p) = True"
| "is_poll e = False"

fun is_removal :: "event \<Rightarrow> bool" where
  "is_removal (Ev_del_bkg_proc p) = True"
| "is_removal e = False"

fun is_stdout :: "event \<Rightarrow> bool" where
  "is_stdout (Ev_stdout s) = True"
| "is_stdout e = False"

text \<open>
  A wait script splits into the entries that report a child (\<open>reaped_of\<close>), the first
  answer that is 0 or -1 (\<open>stop_of\<close>; -1 when the script runs out) and what is left.
\<close>

definition is_reaped :: "int \<times> int \<Rightarrow> bool" where
  "is_reaped e = (fst e \<noteq> 0 \<and> fst e \<noteq> - 1)"

definition reaped_of :: "(int \<times> int) list \<Rightarrow> (int \<times> int) list" where
  "reaped_of script = takeWhile is_reaped script"

definition stop_of :: "(int \<times> int) list \<Rightarrow> int" where
  "stop_of script = (case dropWhile is_reaped script of [] \<Rightarrow> - 1 | e # rest \<Rightarrow> fst e)"

definition left_of :: "(int \<times> int) list \<Rightarrow> (int \<times> int) list" where
  "left_of script = tl (dropWhile is_reaped script)"

text \<open>
  What the spec asks of the reaper, in its words: the reaped child that is the active
  child is not a background job (\<open>background_of\<close> drops it, once); every other one is
  looked up and removed in the registry and reported with its job number and exit status
  (\<open>reports\<close>). The exit status is the second byte of the wait status, and the report is
  the line \<^verbatim>\<open>[n] completed. Exit: e\<close>, written out here without reference to the handler.
\<close>

definition exit_status :: "int \<Rightarrow> int" where
  "exit_status status = (status div 256) mod 256"

definition report_line :: "nat \<Rightarrow> int \<Rightarrow> string" where
  "report_line n status =
     ''['' @ show_nat n @ ''] completed. Exit: '' @ show_int (exit_status status) @ [CHR 0x0A]"

fun background_of :: "int \<Rightarrow> (int \<times> int) list \<Rightarrow> (int \<times> int) list" where
  "background_of a [] = []"
| "background_of a (e # es) = (if fst e = a then es else e # background_of a es)"

definition job_number :: "(int \<times> nat) list \<Rightarrow> int \<Rightarrow> nat" where
  "job_number r p = (case map_of r p of None \<Rightarrow> 0 | Some n \<Rightarrow> n)"

definition removed :: "int \<Rightarrow> (int \<times> nat) list \<Rightarrow> (int \<times> nat) list" where
  "removed p r = filter (\<lambda>e. fst e \<noteq> p) r"

fun reports :: "(int \<times> nat) list \<Rightarrow> (int \<times> int) list \<Rightarrow> string list" where
  "reports r [] = []"
| "reports r (e # es) =
     report_line (job_number r (fst e)) (snd e) # reports (removed (fst e) r) es"

definition polled :: "int \<Rightarrow> world \<Rightarrow> world" where
  "polled p w = log_event (Ev_waitpid (- 1) 3 p) w"

definition reported :: "int \<Rightarrow> int \<Rightarrow> world \<Rightarrow> world" where
  "reported p status w =
     log_event (Ev_stdout (completed_msg (snd (del_bkg_proc p w)) status)) (fst (del_bkg_proc p w))"

subsection \<open>Example inputs\<close>

definition example_config :: config where
  "example_config =
     \<lparr>M_FAILED_EXEC = 2, M_FAILED_IO = 4, SIGINT_EXIT_CODE = 130, SHELL_TERM = 0,
      VERSION = ''1.0'', strerror = (\<lambda>e. ''errno '' @ show_nat e)\<rparr>"

definition example_table :: hash_table where
  "example_table =
     [(''help'', \<lparr>type = CMD, cmd = M_help\<rparr>), (''exit'', \<lparr>type = CMD, cmd = M_exit\<rparr>),
      (''cd'', \<lparr>type = CMD, cmd = M_cd\<rparr>)]"

text \<open>An interactive shell with its three standard descriptors and the builtins registered.\<close>

definition example_shell :: world where
  "example_shell =
     \<lparr>open_fds = [0, 1, 2], errno = 0, self_pid = 100, pgrp = [(100, 100)],
      environ = [(''HOME'', ''/home/u'')], cwd = ''/'', fs_dirs = [''/'', ''/home/u''],
      trace = [], open_script = [], pipe_script = [], fork_script = [], exec_script = [],
      alloc_script = [], wait_script = [], interactive = True, g_exit_code = 0,
      lookup_table = example_table, atexit_count = 1, oldpwd = [], active_child = 0,
      bkg_procs = []\<rparr>"

text \<open>
  A process as the parser hands it over: \<^verbatim>\<open>new_cmd\<close> (\<^verbatim>\<open>ds/cmd.c\<close>) zeroes the structure
  and sets \<^verbatim>\<open>fds[i] = i\<close>.
\<close>

definition new_proc :: "string list \<Rightarrow> proc" where
  "new_proc args =
     \<lparr>argv = args, env = [], fds = [0, 1, 2], pid = 0, completed = False, exit_code = 0\<rparr>"

definition new_job :: "proc list \<Rightarrow> string option list \<Rightarrow> job" where
  "new_job ps paths =
     \<lparr>procs = ps, io = map (\<lambda>f. \<lparr>path = f, oflag = 0\<rparr>) paths, pgid = 0, bkg = False\<rparr>"

text \<open>
  A shell that awaits child 10 in the foreground and has child 11 as background job 1;
  child 11 has been stopped by signal 20 (the status \<^verbatim>\<open>0x147f\<close>).
\<close>

definition stopped_world :: world where
  "stopped_world =
     example_shell\<lparr>wait_script := [(11, 0x147F)], active_child := 10, bkg_procs := [(11, 1)]\<rparr>"

text \<open>
  The same shell at a \<^verbatim>\<open>SIGCHLD\<close> for which \<^verbatim>\<open>waitpid\<close> reports the foreground child 10,
  then the background child 11 (exit status 3), then nothing more pending.
\<close>

definition reaping_world :: world where
  "reaping_world =
     example_shell\<lparr>wait_script := [(10, 0), (11, 0x300), (0, 0), (12, 0)], active_child := 10,
       bkg_procs := [(11, 1), (12, 2)]\<rparr>"

subsection \<open>Reading the trace of a launch\<close>

fun is_pipe :: "event \<Rightarrow> bool" where
  "is_pipe (Ev_pipe r wr) = True"
| "is_pipe e = False"

fun is_fork :: "event \<Rightarrow> bool" where
  "is_fork (Ev_fork p) = True"
| "is_fork e = False"

fun is_close :: "event \<Rightarrow> bool" where
  "is_close (Ev_close fd) = True"
| "is_close e = False"

text \<open>The descriptors that successful calls of \<^verbatim>\<open>open\<close> returned, and those passed to \<^verbatim>\<open>close\<close>.\<close>

fun opened_fds :: "event list \<Rightarrow> int list" where
  "opened_fds [] = []"
| "opened_fds (Ev_open f fl md fd # es) = (if fd = - 1 then opened_fds es else fd # opened_fds es)"
| "opened_fds (e # es) = opened_fds es"

fun closed_fds :: "event list \<Rightarrow> int list" where
  "closed_fds [] = []"
| "closed_fds (Ev_close fd # es) = fd # closed_fds es"
| "closed_fds (e # es) = closed_fds es"

subsection \<open>Well-formed inputs\<close>

text \<open>
  The entries of an fd array, counted from index \<open>i\<close>, that differ from their index: the
  ones \<^verbatim>\<open>fd_cleanup\<close> closes.
\<close>

fun misplaced :: "nat \<Rightarrow> int list \<Rightarrow> int list" where
  "misplaced i [] = []"
| "misplaced i (fd # rest) = (if fd \<noteq> int i then [fd] else []) @ misplaced (Suc i) rest"

text \<open>
  The C arrays \<^verbatim>\<open>fds\<close> and \<^verbatim>\<open>io\<close> have three elements; the lists of the model have three
  where a statement says so. \<open>std_fds_open\<close>: the shell has its standard descriptors.
\<close>

definition fds_ok :: "job \<Rightarrow> bool" where
  "fds_ok j = list_all (\<lambda>p. length (fds p) = 3) (procs j)"

definition std_fds_open :: "world \<Rightarrow> bool" where
  "std_fds_open w = (0 \<in> set (open_fds w) \<and> 1 \<in> set (open_fds w) \<and> 2 \<in> set (open_fds w))"

text \<open>A process that is no builtin: its \<^verbatim>\<open>argv[0]\<close> has no command binding in the table.\<close>

definition is_external :: "hash_table \<Rightarrow> proc \<Rightarrow> bool" where
  "is_external t p =
     (case argv p of [] \<Rightarrow> False | a0 # args \<Rightarrow> find_node a0 filter_command t = None)"

text \<open>The binding that \<^verbatim>\<open>initialize_builtins\<close> makes of a name and its function.\<close>

definition binding_of :: "string \<times> proc_func \<Rightarrow> string \<times> builtin" where
  "binding_of e = (fst e, \<lparr>type = CMD, cmd = snd e\<rparr>)"

subsection \<open>The loop stopped at a process\<close>

text \<open>
  The state in which the second loop of \<^verbatim>\<open>launch_job\<close> hands the process at index \<open>i\<close> to
  the lookup. \<open>dispatch_state\<close> is that loop with one exit more, taken at index \<open>i\<close> once
  the pipe to the next process is wired; \<open>at_dispatch\<close> starts it as \<^verbatim>\<open>launch_job\<close> starts
  the loop, after the redirections. The result is \<open>None\<close> when the launch ends before it
  comes to process \<open>i\<close>.
\<close>

function dispatch_state ::
  "config \<Rightarrow> nat \<Rightarrow> nat \<Rightarrow> nat \<Rightarrow> world \<Rightarrow> job \<Rightarrow> (world \<times> job) option" where
  "dispatch_state m n i k w j =
     (if k < n then
        (case wire_pipe n k w j of
           (w1, j1, False) \<Rightarrow> None
         | (w1, j1, True) \<Rightarrow>
             if k = i then Some (w1, j1)
             else
               (case launch_proc m k w1 j1 of
                  (w2, j2, Some out) \<Rightarrow> None
                | (w2, j2, None) \<Rightarrow>
                    dispatch_state m n i (Suc k) (fd_cleanup (fds (procs j2 ! k)) 3 w2) j2))
      else None)"
  by pat_completeness auto
termination
  by (relation "measure (\<lambda>(m, n, i, k, w, j). n - k)") auto

declare dispatch_state.simps [simp del]

definition at_dispatch :: "config \<Rightarrow> world \<Rightarrow> job \<Rightarrow> nat \<Rightarrow> (world \<times> job) option" where
  "at_dispatch m w j i =
     (case open_io m (io j) 0 [0, 1, 2] w of
        (w1, Inl code) \<Rightarrow> None
      | (w1, Inr io_fd) \<Rightarrow>
          if procs j = [] then None
          else dispatch_state m (length (procs j)) i 0 w1 (bind_io io_fd j))"

subsection \<open>Example jobs and shells\<close>

text \<open>A shell before \<^verbatim>\<open>initialize_builtins\<close>, with memory for two runs of it.\<close>

definition init_world :: world where
  "init_world = example_shell\<lparr>lookup_table := [], atexit_count := 0, alloc_script := replicate 14 Ok\<rparr>"

text \<open>\<^verbatim>\<open>cd /nonexistent\<close>, \<^verbatim>\<open>help\<close> and \<^verbatim>\<open>ls\<close>; a shell in which one \<^verbatim>\<open>fork\<close> succeeds.\<close>

definition cd_job :: job where
  "cd_job = new_job [new_proc [''cd'', ''/nonexistent'']] [None, None, None]"

definition help_job :: job where
  "help_job = new_job [new_proc [''help'']] [None, None, None]"

definition ls_job :: job where
  "ls_job = new_job [new_proc [''ls'']] [None, None, None]"

definition fork_world :: world where
  "fork_world = example_shell\<lparr>fork_script := [Fork_parent 201]\<rparr>"

text \<open>
  \<^verbatim>\<open>ls > out\<close>, in a shell whose \<^verbatim>\<open>fork\<close> fails, and seen from a child whose \<^verbatim>\<open>exec\<close> fails.
\<close>

definition ls_out_job :: job where
  "ls_out_job = new_job [new_proc [''ls'']] [None, Some ''out'', None]"

definition fork_fails_world :: world where
  "fork_fails_world = example_shell\<lparr>open_script := [Ok], fork_script := [Fork_failed 11]\<rparr>"

definition exec_fails_world :: world where
  "exec_fails_world =
     example_shell\<lparr>open_script := [Ok], fork_script := [Fork_child 201], exec_script := [Err 2]\<rparr>"

text \<open>\<^verbatim>\<open>cat < in > /nonexistent/out\<close>: the second \<^verbatim>\<open>open\<close> fails.\<close>

definition cat_job :: job where
  "cat_job = new_job [new_proc [''cat'']] [Some ''in'', Some ''/nonexistent/out'', None]"

definition open_fails_world :: world where
  "open_fails_world = example_shell\<lparr>open_script := [Ok, Err 2], fork_script := [Fork_parent 201]\<rparr>"

text \<open>\<^verbatim>\<open>ls | help | wc\<close> with both ends redirected, and \<^verbatim>\<open>cd | ls | wc\<close>; every call succeeds.\<close>

definition pipeline_job :: job where
  "pipeline_job =
     new_job [new_proc [''ls''], new_proc [''help''], new_proc [''wc'']]
       [Some ''in'', Some ''out'', None]"

definition pipeline_world :: world where
  "pipeline_world =
     example_shell\<lparr>open_script := [Ok, Ok], pipe_script := [Ok, Ok],
       fork_script := [Fork_parent 201, Fork_parent 202]\<rparr>"

definition cd_ls_wc_job :: job where
  "cd_ls_wc_job =
     new_job [new_proc [''cd''], new_proc [''ls''], new_proc [''wc'']] [None, None, None]"

definition two_forks_world :: world where
  "two_forks_world =
     example_shell\<lparr>pipe_script := [Ok, Ok], fork_script := [Fork_parent 201, Fork_parent 202]\<rparr>"

text \<open>
  The state of the launch of \<^verbatim>\<open>ls | wc\<close> when the loop comes to its second process: \<^verbatim>\<open>ls\<close>
  runs as child 201 and leads the job's group, the read end 3 of the pipe is the standard
  input of \<^verbatim>\<open>wc\<close>. In \<open>forked_once_world\<close> the next \<^verbatim>\<open>fork\<close> fails; in \<open>second_child_world\<close>
  it succeeds and the run is that of the new child 202.
\<close>

definition forked_once_job :: job where
  "forked_once_job =
     \<lparr>procs = [(new_proc [''ls''])\<lparr>fds := [0, 4, 2], pid := 201\<rparr>,
                (new_proc [''wc''])\<lparr>fds := [3, 1, 2]\<rparr>],
      io = map (\<lambda>f. \<lparr>path = f, oflag = 0\<rparr>) [None, None, None], pgid = 201, bkg = False\<rparr>"

definition forked_once_world :: world where
  "forked_once_world =
     example_shell\<lparr>open_fds := [3, 0, 1, 2], pgrp := [(201, 201), (100, 100)],
       fork_script := [Fork_failed 11],
       trace := [Ev_pipe 3 4, Ev_fork 201, Ev_setpgid 201 201, Ev_tcsetpgrp 0 201, Ev_close 4]\<rparr>"

definition second_child_world :: world where
  "second_child_world = forked_once_world\<lparr>fork_script := [Fork_child 202], exec_script := [Ok]\<rparr>"


definition ls_wc_job :: job where
  "ls_wc_job = new_job [new_proc [''ls''], new_proc [''wc'']] [None, None, None]"

definition second_fork_fails_world :: world where
  "second_fork_fails_world =
     example_shell\<lparr>pipe_script := [Ok], fork_script := [Fork_parent 201, Fork_failed 11]\<rparr>"

section \<open>Properties of the reaper\<close>

lemma mask_numerals:
  "(0xFF00 :: int) = push_bit 8 (mask 8)" "(0x7F :: int) = mask 7" "(0xFF :: int) = mask 8"
  by (simp_all add: mask_eq_exp_minus_1 push_bit_eq_mult)

lemma WEXITSTATUS_eq: "WEXITSTATUS s = take_bit 8 (drop_bit 8 s)"
  unfolding WEXITSTATUS_def mask_numerals
  by (simp add: drop_bit_and take_bit_eq_mask drop_bit_push_bit)

lemma WEXITSTATUS_exited: "WEXITSTATUS (W_EXITCODE (WEXITSTATUS s) 0) = WEXITSTATUS s"
  by (simp add: WEXITSTATUS_eq W_EXITCODE_def drop_bit_push_bit)

lemma WIFEXITED_exited: "WIFEXITED (W_EXITCODE r 0)"
  unfolding WIFEXITED_def W_EXITCODE_def mask_numerals
  by (simp add: take_bit_eq_mask [symmetric] take_bit_push_bit)

lemma stopped_not_exited: "WIFSTOPPED s \<Longrightarrow> \<not> WIFEXITED s"
proof
  assume st: "WIFSTOPPED s" and ex: "WIFEXITED s"
  have "s AND 0x7F = (s AND 0xFF) AND 0x7F"
    by (simp add: and.assoc)
  also have "\<dots> = 0x7F"
    using st by (simp add: WIFSTOPPED_def)
  finally show False
    using ex by (simp add: WIFEXITED_def)
qed

lemma waitpid_Nil:
  "wait_script w = [] \<Longrightarrow>
   waitpid which opts w = (log_event (Ev_waitpid which opts (- 1)) w, - 1, 0)"
  by (simp add: waitpid_def)

lemma waitpid_Cons:
  "wait_script w = (p, status) # rest \<Longrightarrow>
   waitpid which opts w =
     (log_event (Ev_waitpid which opts p) (w\<lparr>wait_script := rest\<rparr>), p, status)"
  by (simp add: waitpid_def)

lemma poll_flags: "WNOHANG OR WUNTRACED = 3"
  by (simp add: WNOHANG_def WUNTRACED_def)

lemma reap_loop_Nil:
  "wait_script w = [] \<Longrightarrow>
   reap_loop first_iter w =
     (if first_iter then reset_active_child (polled (- 1) w) else polled (- 1) w)"
  by (subst reap_loop.simps) (simp add: waitpid_Nil poll_flags polled_def)

lemma reap_loop_Cons:
  "wait_script w = (p, status) # rest \<Longrightarrow>
   reap_loop first_iter w =
     (if p = 0 then polled p (w\<lparr>wait_script := rest\<rparr>)
      else if p = - 1 then
        (if first_iter then reset_active_child (polled p (w\<lparr>wait_script := rest\<rparr>))
         else polled p (w\<lparr>wait_script := rest\<rparr>))
      else if p = active_child w then
        reap_loop False (reset_active_child (polled p (w\<lparr>wait_script := rest\<rparr>)))
      else reap_loop False (reported p status (polled p (w\<lparr>wait_script := rest\<rparr>))))"
  by (subst reap_loop.simps)
     (simp add: waitpid_Cons poll_flags polled_def reported_def get_active_child_def
        log_event_def split: prod.splits)

lemma polled_fields [simp]:
  "wait_script (polled p w) = wait_script w"
  "active_child (polled p w) = active_child w"
  "bkg_procs (polled p w) = bkg_procs w"
  "trace (polled p w) = trace w @ [Ev_waitpid (- 1) 3 p]"
  by (simp_all add: polled_def log_event_def)

lemma reset_fields [simp]:
  "wait_script (reset_active_child w) = wait_script w"
  "active_child (reset_active_child w) = 0"
  "bkg_procs (reset_active_child w) = bkg_procs w"
  "trace (reset_active_child w) = trace w @ [Ev_reset_active_child]"
  by (simp_all add: reset_active_child_def log_event_def)

lemma reported_fields [simp]:
  "wait_script (reported p s w) = wait_script w"
  "active_child (reported p s w) = active_child w"
  "bkg_procs (reported p s w) = removed p (bkg_procs w)"
  "trace (reported p s w) =
     trace w @ [Ev_del_bkg_proc p, Ev_stdout (completed_msg (job_number (bkg_procs w) p) s)]"
  by (simp_all add: reported_def del_bkg_proc_def log_event_def job_number_def removed_def)

lemma script_Nil [simp]:
  "reaped_of [] = []" "stop_of [] = - 1" "left_of [] = []"
  by (simp_all add: reaped_of_def stop_of_def left_of_def)

lemma script_stop [simp]:
  "p = 0 \<or> p = - 1 \<Longrightarrow> reaped_of ((p, s) # xs) = []"
  "p = 0 \<or> p = - 1 \<Longrightarrow> stop_of ((p, s) # xs) = p"
  "p = 0 \<or> p = - 1 \<Longrightarrow> left_of ((p, s) # xs) = xs"
  by (auto simp add: reaped_of_def stop_of_def left_of_def is_reaped_def)

lemma script_reaped [simp]:
  "p \<noteq> 0 \<Longrightarrow> p \<noteq> - 1 \<Longrightarrow> reaped_of ((p, s) # xs) = (p, s) # reaped_of xs"
  "p \<noteq> 0 \<Longrightarrow> p \<noteq> - 1 \<Longrightarrow> stop_of ((p, s) # xs) = stop_of xs"
  "p \<noteq> 0 \<Longrightarrow> p \<noteq> - 1 \<Longrightarrow> left_of ((p, s) # xs) = left_of xs"
  by (simp_all add: reaped_of_def stop_of_def left_of_def is_reaped_def)

lemma zero_not_reaped: "0 \<notin> fst ` set (reaped_of xs)"
  by (auto simp: reaped_of_def is_reaped_def dest!: set_takeWhileD)

lemma background_of_absent: "a \<notin> fst ` set es \<Longrightarrow> background_of a es = es"
  by (induction es) auto

lemma reap_loop_script: "wait_script w = xs \<Longrightarrow> wait_script (reap_loop f w) = left_of xs"
proof (induction xs arbitrary: w f)
  case Nil
  then show ?case by (simp add: reap_loop_Nil)
next
  case (Cons e xs)
  obtain p s where e: "e = (p, s)" by (cases e)
  from Cons.prems e have scr: "wait_script w = (p, s) # xs" by simp
  show ?case
    unfolding reap_loop_Cons [OF scr] e
    by (auto simp: Cons.IH)
qed

lemma reap_loop_active:
  "wait_script w = xs \<Longrightarrow>
   active_child (reap_loop f w) =
     (if (f \<and> reaped_of xs = [] \<and> stop_of xs = - 1) \<or> active_child w \<in> fst ` set (reaped_of xs)
      then 0 else active_child w)"
proof (induction xs arbitrary: w f)
  case Nil
  then show ?case by (simp add: reap_loop_Nil)
next
  case (Cons e xs)
  obtain p s where e: "e = (p, s)" by (cases e)
  from Cons.prems e have scr: "wait_script w = (p, s) # xs" by simp
  show ?case
    unfolding reap_loop_Cons [OF scr] e
    using zero_not_reaped [of xs]
    by (auto simp: Cons.IH)
qed

lemma reap_loop_polls:
  "wait_script w = xs \<Longrightarrow>
   filter is_poll (trace (reap_loop f w)) =
     filter is_poll (trace w) @ map (Ev_waitpid (- 1) 3) (map fst (reaped_of xs) @ [stop_of xs])"
proof (induction xs arbitrary: w f)
  case Nil
  then show ?case by (simp add: reap_loop_Nil)
next
  case (Cons e xs)
  obtain p s where e: "e = (p, s)" by (cases e)
  from Cons.prems e have scr: "wait_script w = (p, s) # xs" by simp
  show ?case
    unfolding reap_loop_Cons [OF scr] e
    by (auto simp: Cons.IH)
qed

lemma reap_loop_removals:
  "wait_script w = xs \<Longrightarrow>
   filter is_removal (trace (reap_loop f w)) =
     filter is_removal (trace w) @
     map (Ev_del_bkg_proc \<circ> fst) (background_of (active_child w) (reaped_of xs))"
proof (induction xs arbitrary: w f)
  case Nil
  then show ?case by (simp add: reap_loop_Nil)
next
  case (Cons e xs)
  obtain p s where e: "e = (p, s)" by (cases e)
  from Cons.prems e have scr: "wait_script w = (p, s) # xs" by simp
  show ?case
    unfolding reap_loop_Cons [OF scr] e
    using zero_not_reaped [of xs]
    by (auto simp: Cons.IH background_of_absent)
qed

lemma completed_msg_report: "completed_msg n s = report_line n s"
  by (simp add: completed_msg_def report_line_def exit_status_def WEXITSTATUS_eq take_bit_eq_mod
      drop_bit_eq_div)

lemma reap_loop_reports:
  "wait_script w = xs \<Longrightarrow>
   filter is_stdout (trace (reap_loop f w)) =
     filter is_stdout (trace w) @
     map Ev_stdout (reports (bkg_procs w) (background_of (active_child w) (reaped_of xs)))"
proof (induction xs arbitrary: w f)
  case Nil
  then show ?case by (simp add: reap_loop_Nil)
next
  case (Cons e xs)
  obtain p s where e: "e = (p, s)" by (cases e)
  from Cons.prems e have scr: "wait_script w = (p, s) # xs" by simp
  show ?case
    unfolding reap_loop_Cons [OF scr] e
    using zero_not_reaped [of xs]
    by (auto simp: Cons.IH background_of_absent completed_msg_report)
qed

lemma handle_sigchld: "handle_signals m SIGCHLD w = (reap_loop True w, Handler_returned)"
  by (simp add: handle_signals_def SIGCHLD_def SIGINT_def SIGQUIT_def)

text \<open>
  C7. On \<^verbatim>\<open>SIGCHLD\<close> the handler returns after polling with \<^verbatim>\<open>WNOHANG | WUNTRACED\<close> once
  for every pending status change and once more for the answer (0 or -1) that ends the
  loop, and it takes no further entry of the script. The active-child tracking is cleared
  when the very first poll answers -1 or when a reaped pid is the active child, and kept
  otherwise. Every other reaped pid is passed to \<^verbatim>\<open>del_bkg_proc\<close>, in order, and for each
  of them the line \<open>report_line\<close> is printed: \<^verbatim>\<open>[n] completed. Exit: e\<close> with \<open>n\<close> the job
  number the registry held for that pid and \<open>e\<close> the exit status in its wait status.
\<close>

theorem sigchld_reaps_until_quiet:
  "snd (handle_signals m SIGCHLD w) = Handler_returned \<and>
   wait_script (fst (handle_signals m SIGCHLD w)) = left_of (wait_script w) \<and>
   filter is_poll (trace (fst (handle_signals m SIGCHLD w))) =
     filter is_poll (trace w) @
     map (Ev_waitpid (- 1) (WNOHANG OR WUNTRACED))
       (map fst (reaped_of (wait_script w)) @ [stop_of (wait_script w)]) \<and>
   active_child (fst (handle_signals m SIGCHLD w)) =
     (if (reaped_of (wait_script w) = [] \<and> stop_of (wait_script w) = - 1) \<or>
         active_child w \<in> fst ` set (reaped_of (wait_script w))
      then 0 else active_child w) \<and>
   filter is_removal (trace (fst (handle_signals m SIGCHLD w))) =
     filter is_removal (trace w) @
     map (Ev_del_bkg_proc \<circ> fst) (background_of (active_child w) (reaped_of (wait_script w))) \<and>
   filter is_stdout (trace (fst (handle_signals m SIGCHLD w))) =
     filter is_stdout (trace w) @
     map Ev_stdout
       (reports (bkg_procs w) (background_of (active_child w) (reaped_of (wait_script w))))"
  using reap_loop_script [of w "wait_script w" True]
    reap_loop_polls [of w "wait_script w" True]
    reap_loop_active [of w "wait_script w" True]
    reap_loop_removals [of w "wait_script w" True]
    reap_loop_reports [of w "wait_script w" True]
  by (simp add: handle_sigchld poll_flags)

theorem sigchld_reaps_until_quiet_witness:
  "wait_script (fst (handle_signals example_config SIGCHLD reaping_world)) = [(12, 0)] \<and>
   filter is_poll (trace (fst (handle_signals example_config SIGCHLD reaping_world))) =
     [Ev_waitpid (- 1) 3 10, Ev_waitpid (- 1) 3 11, Ev_waitpid (- 1) 3 0] \<and>
   active_child (fst (handle_signals example_config SIGCHLD reaping_world)) = 0 \<and>
   filter is_removal (trace (fst (handle_signals example_config SIGCHLD reaping_world))) =
     [Ev_del_bkg_proc 11] \<and>
   filter is_stdout (trace (fst (handle_signals example_config SIGCHLD reaping_world))) =
     [Ev_stdout (''[1] completed. Exit: 3'' @ [CHR 0x0A])]"
  using sigchld_reaps_until_quiet [of example_config reaping_world]
  by (simp add: reaping_world_def example_shell_def poll_flags job_number_def report_line_def
      exit_status_def show_int_def show_nat.simps)

text \<open>
  C10. A child that \<^verbatim>\<open>waitpid\<close> reports as stopped, and that is not the active child, is
  passed to \<^verbatim>\<open>del_bkg_proc\<close> and announced as completed with \<^verbatim>\<open>WEXITSTATUS\<close> of its status,
  after which polling goes on. The handler does exactly what it does for a child that
  exited with that value as its exit code, although the status is not an exit status.
\<close>

theorem stopped_child_reported_completed:
  assumes "wait_script w = (p, status) # rest"
    and "WIFSTOPPED status"
    and "p \<noteq> 0" and "p \<noteq> - 1" and "p \<noteq> active_child w"
  shows "handle_signals m SIGCHLD w =
           (case del_bkg_proc p
                   (log_event (Ev_waitpid (- 1) (WNOHANG OR WUNTRACED) p) (w\<lparr>wait_script := rest\<rparr>)) of
              (w2, job_num) \<Rightarrow>
                (reap_loop False (log_event (Ev_stdout (completed_msg job_num status)) w2),
                 Handler_returned)) \<and>
         handle_signals m SIGCHLD w =
           handle_signals m SIGCHLD (w\<lparr>wait_script := (p, W_EXITCODE (WEXITSTATUS status) 0) # rest\<rparr>) \<and>
         WIFEXITED (W_EXITCODE (WEXITSTATUS status) 0) \<and> \<not> WIFEXITED status"
proof -
  let ?w' = "w\<lparr>wait_script := (p, W_EXITCODE (WEXITSTATUS status) 0) # rest\<rparr>"
  let ?w1 = "polled p (w\<lparr>wait_script := rest\<rparr>)"
  have scr': "wait_script ?w' = (p, W_EXITCODE (WEXITSTATUS status) 0) # rest"
    by simp
  have same: "reported p (W_EXITCODE (WEXITSTATUS status) 0) = reported p status"
    by (rule ext) (simp add: reported_def completed_msg_def WEXITSTATUS_exited)
  have step: "reap_loop True w = reap_loop False (reported p status ?w1)"
    using assms(3-5) by (simp add: reap_loop_Cons [OF assms(1)])
  have step': "reap_loop True ?w' = reap_loop False (reported p status ?w1)"
    using assms(3-5) by (simp add: reap_loop_Cons [OF scr'] same)
  have "handle_signals m SIGCHLD w =
      (case del_bkg_proc p
              (log_event (Ev_waitpid (- 1) (WNOHANG OR WUNTRACED) p) (w\<lparr>wait_script := rest\<rparr>)) of
         (w2, job_num) \<Rightarrow>
           (reap_loop False (log_event (Ev_stdout (completed_msg job_num status)) w2),
            Handler_returned))"
    by (simp add: handle_sigchld step reported_def polled_def poll_flags case_prod_beta)
  moreover have "handle_signals m SIGCHLD w = handle_signals m SIGCHLD ?w'"
    by (simp only: handle_sigchld step step')
  ultimately show ?thesis
    using assms(2) WIFEXITED_exited stopped_not_exited by blast
qed

theorem stopped_child_reported_completed_witness:
  "WIFSTOPPED 0x147F \<and>
   filter is_removal (trace (fst (handle_signals example_config SIGCHLD stopped_world))) =
     [Ev_del_bkg_proc 11] \<and>
   filter is_stdout (trace (fst (handle_signals example_config SIGCHLD stopped_world))) =
     [Ev_stdout (''[1] completed. Exit: 20'' @ [CHR 0x0A])] \<and>
   handle_signals example_config SIGCHLD stopped_world =
     handle_signals example_config SIGCHLD
       (stopped_world\<lparr>wait_script := [(11, W_EXITCODE (WEXITSTATUS 0x147F) 0)]\<rparr>)"
proof -
  let ?W = "reported 11 0x147F (polled 11 (stopped_world\<lparr>wait_script := []\<rparr>))"
  have st: "WIFSTOPPED 0x147F"
    by (simp add: WIFSTOPPED_def)
  have scr: "wait_script stopped_world = [(11, 0x147F)]"
    and act: "11 \<noteq> active_child stopped_world"
    and fields: "trace stopped_world = []" "bkg_procs stopped_world = [(11, 1)]"
    by (simp_all add: stopped_world_def example_shell_def)
  have msg: "completed_msg (Suc 0) 0x147F = ''[1] completed. Exit: 20'' @ [CHR 0x0A]"
    by (simp add: completed_msg_def WEXITSTATUS_def show_int_def show_nat.simps)
  have ne: "(11::int) \<noteq> 0" "(11::int) \<noteq> - 1"
    by simp_all
  note inst = stopped_child_reported_completed [OF scr st ne act, of example_config]
  have "fst (handle_signals example_config SIGCHLD stopped_world) = reap_loop False ?W"
    using inst by (simp add: reported_def polled_def poll_flags case_prod_beta)
  then have "trace (fst (handle_signals example_config SIGCHLD stopped_world)) =
      [Ev_waitpid (- 1) 3 11, Ev_del_bkg_proc 11,
       Ev_stdout (''[1] completed. Exit: 20'' @ [CHR 0x0A]), Ev_waitpid (- 1) 3 (- 1)]"
    by (simp add: reap_loop_Nil fields job_number_def msg)
  then have tr: "trace (fst (handle_signals example_config SIGCHLD stopped_world)) =
      [Ev_waitpid (- 1) 3 11, Ev_del_bkg_proc 11,
       Ev_stdout (''[1] completed. Exit: 20'' @ [CHR 0x0A]), Ev_waitpid (- 1) 3 (- 1)]" .
  show ?thesis
  proof (intro conjI)
    show "WIFSTOPPED 0x147F"
      by (rule st)
    show "filter is_removal (trace (fst (handle_signals example_config SIGCHLD stopped_world))) =
        [Ev_del_bkg_proc 11]"
      by (simp add: tr)
    show "filter is_stdout (trace (fst (handle_signals example_config SIGCHLD stopped_world))) =
        [Ev_stdout (''[1] completed. Exit: 20'' @ [CHR 0x0A])]"
      by (simp add: tr)
    show "handle_signals example_config SIGCHLD stopped_world =
        handle_signals example_config SIGCHLD
          (stopped_world\<lparr>wait_script := [(11, W_EXITCODE (WEXITSTATUS 0x147F) 0)]\<rparr>)"
      by (rule inst [THEN conjunct2, THEN conjunct1])
  qed
qed

section \<open>Properties of the launcher\<close>

subsection \<open>What one turn of the loop leaves untouched\<close>

lemmas sys_defs = log_event_def stopif_msg_def close_def sys_open_def pipe_def fork_def
  fork_failure_def
  setpgid_def tcsetpgrp_def chdir_def alloc_def atexit_def

lemma removeAll_filter_neq: "removeAll fd xs = filter (\<lambda>x. x \<noteq> fd) xs"
  by (induction xs) auto

lemma fd_cleanup_loop_eq:
  "fd_cleanup_loop fs i w =
     w\<lparr>open_fds := filter (\<lambda>x. x \<notin> set (misplaced i fs)) (open_fds w),
       trace := trace w @ map Ev_close (misplaced i fs)\<rparr>"
proof (induction fs arbitrary: i w)
  case Nil
  then show ?case by simp
next
  case (Cons fd fs)
  show ?case
    by (simp add: Cons.IH close_def log_event_def removeAll_filter_neq)
qed

lemma fd_cleanup_eq:
  "fd_cleanup fs n w =
     w\<lparr>open_fds := filter (\<lambda>x. x \<notin> set (misplaced 0 (take n fs))) (open_fds w),
       trace := trace w @ map Ev_close (misplaced 0 (take n fs))\<rparr>"
  by (simp add: fd_cleanup_def fd_cleanup_loop_eq)

lemma map_update_same: "(map f xs)[k := f (xs ! k)] = map f xs"
  by (cases "k < length xs") (simp_all add: list_update_same_conv list_update_beyond)

lemma call_builtin_frame:
  assumes "call_builtin m f p w = (w1, Inr r)"
  shows "open_fds w1 = open_fds w" "pgrp w1 = pgrp w" "lookup_table w1 = lookup_table w"
    "interactive w1 = interactive w" "self_pid w1 = self_pid w"
    "filter is_pipe (trace w1) = filter is_pipe (trace w)"
    "filter is_fork (trace w1) = filter is_fork (trace w)"
    "filter is_close (trace w1) = filter is_close (trace w)"
    "fork_script w1 = fork_script w" "pipe_script w1 = pipe_script w"
  using assms
  by (cases f;
      auto simp: m_cd_def m_exit_def m_help_def sys_defs Let_def
        split: option.splits if_splits prod.splits)+

lemma launch_proc_NoneE:
  assumes "launch_proc m k w j = (w', j', None)"
  obtains (builtin) a0 args b r where
      "argv (procs j ! k) = a0 # args"
      "find_node a0 filter_command (lookup_table w) = Some b"
      "call_builtin m (cmd b) (procs j ! k) w = (w', Inr r)"
      "j' = j\<lparr>procs := (procs j)[k := (procs j ! k)\<lparr>exit_code := r, completed := True\<rparr>]\<rparr>"
  | (forked) a0 args c w1 j2 where
      "argv (procs j ! k) = a0 # args"
      "find_node a0 filter_command (lookup_table w) = None"
      "fork w = (w1, c)" "0 < c"
      "Set_proc_group m j c w1 = (w', j2)"
      "j' = j2\<lparr>procs := (procs j2)[k := (procs j2 ! k)\<lparr>pid := c\<rparr>]\<rparr>"
  using assms
  by (auto simp: launch_proc_def Let_def
      split: list.splits option.splits prod.splits sum.splits if_splits)

lemma fork_parent_frame:
  assumes "fork w = (w1, c)" "0 < c"
  shows "w1 = w\<lparr>fork_script := tl (fork_script w), pgrp := inherit_pgrp c w,
                 trace := trace w @ [Ev_fork c]\<rparr>"
    and "hd (fork_script w) = Fork_parent c" and "fork_script w \<noteq> []"
  using assms
  by (auto simp: fork_def fork_failure_def log_event_def
      split: list.splits fork_reply.splits if_splits)

lemma Set_proc_group_job:
  assumes "Set_proc_group m j c w = (w', j')"
  shows "procs j' = procs j" "io j' = io j" "bkg j' = bkg j"
    "pgid j' = (if interactive w \<and> pgid j = 0 then c else pgid j)"
  using assms by (auto simp: Set_proc_group_def Let_def split: if_splits)

lemma Set_proc_group_world:
  assumes "Set_proc_group m j c w = (w', j')"
  shows "open_fds w' = open_fds w" "lookup_table w' = lookup_table w"
    "interactive w' = interactive w" "self_pid w' = self_pid w"
    "fork_script w' = fork_script w" "pipe_script w' = pipe_script w"
    "filter is_pipe (trace w') = filter is_pipe (trace w)"
    "filter is_fork (trace w') = filter is_fork (trace w)"
    "filter is_close (trace w') = filter is_close (trace w)"
  using assms
  by (auto simp: Set_proc_group_def Let_def setpgid_def tcsetpgrp_def log_event_def
      split: if_splits)

lemma launch_proc_frame:
  assumes "launch_proc m k w j = (w', j', None)"
  shows "map fds (procs j') = map fds (procs j)" (is ?A)
    and "map argv (procs j') = map argv (procs j)" (is ?B)
    and "io j' = io j" (is ?C) and "bkg j' = bkg j" (is ?D)
    and "open_fds w' = open_fds w" (is ?E)
    and "lookup_table w' = lookup_table w" (is ?F)
    and "interactive w' = interactive w" (is ?G)
    and "filter is_pipe (trace w') = filter is_pipe (trace w)" (is ?H)
    and "filter is_close (trace w') = filter is_close (trace w)" (is ?I)
proof -
  from assms have "?A \<and> ?B \<and> ?C \<and> ?D \<and> ?E \<and> ?F \<and> ?G \<and> ?H \<and> ?I"
  proof (cases rule: launch_proc_NoneE)
    case (builtin a0 args b r)
    from call_builtin_frame [OF builtin(3)] builtin(4) show ?thesis
      by (simp add: map_update map_update_same)
  next
    case (forked a0 args c w1 j2)
    from fork_parent_frame(1) [OF forked(3,4)] Set_proc_group_job [OF forked(5)]
      Set_proc_group_world [OF forked(5)] forked(6)
    show ?thesis
      by (simp add: map_update map_update_same)
  qed
  then show ?A and ?B and ?C and ?D and ?E and ?F and ?G and ?H and ?I
    by simp_all
qed

subsection \<open>Pipes between adjacent processes\<close>

lemma launch_procs_done: "\<not> k < n \<Longrightarrow> launch_procs m n k w j = (w, j, None)"
  by (simp add: launch_procs.simps)

lemma launch_procs_NoneE:
  assumes "launch_procs m n k w j = (w', j', None)" and "k < n"
  obtains w1 j1 w2 j2 where
    "wire_pipe n k w j = (w1, j1, True)"
    "launch_proc m k w1 j1 = (w2, j2, None)"
    "launch_procs m n (Suc k) (fd_cleanup (fds (procs j2 ! k)) 3 w2) j2 = (w', j', None)"
  using assms
  by (subst (asm) launch_procs.simps)
     (auto split: prod.splits bool.splits option.splits)

lemma set_fd_simps [simp]:
  "length (procs (set_fd k i v j)) = length (procs j)"
  "io (set_fd k i v j) = io j" "pgid (set_fd k i v j) = pgid j" "bkg (set_fd k i v j) = bkg j"
  "map argv (procs (set_fd k i v j)) = map argv (procs j)"
  by (simp_all add: set_fd_def map_update map_update_same)

lemma set_fd_nth:
  "k' < length (procs j) \<Longrightarrow>
   fds (procs (set_fd k i v j) ! k') =
     (if k' = k then (fds (procs j ! k))[i := v] else fds (procs j ! k'))"
  by (simp add: set_fd_def nth_list_update)

lemma fds_ok_nth: "fds_ok j \<Longrightarrow> k < length (procs j) \<Longrightarrow> length (fds (procs j ! k)) = 3"
  by (simp add: fds_ok_def list_all_length)

lemma fds_ok_set_fd [simp]: "fds_ok (set_fd k i v j) = fds_ok j"
  by (auto simp: fds_ok_def list_all_length set_fd_nth)

lemma fds_ok_cong: "map fds (procs j') = map fds (procs j) \<Longrightarrow> fds_ok j' = fds_ok j"
proof -
  assume "map fds (procs j') = map fds (procs j)"
  moreover have "\<And>j. fds_ok j = list_all (\<lambda>f. length f = 3) (map fds (procs j))"
    by (simp add: fds_ok_def list_all_iff)
  ultimately show ?thesis by simp
qed

lemma map_fds_nth:
  "map fds (procs j') = map fds (procs j) \<Longrightarrow> k < length (procs j) \<Longrightarrow>
   fds (procs j' ! k) = fds (procs j ! k) \<and> length (procs j') = length (procs j)"
  by (metis length_map nth_map)

lemma wire_pipe_TrueE:
  assumes "wire_pipe n k w j = (w1, j1, True)"
  obtains (last) "k = n - 1" "w1 = w" "j1 = j"
  | (inner) r wr where "k \<noteq> n - 1" "pipe w = (w1, Some (r, wr))"
      "j1 = set_fd (Suc k) 0 r (set_fd k 1 wr j)"
  using assms by (auto simp: wire_pipe_def split: if_splits prod.splits option.splits)

lemma pipe_SomeD:
  assumes "pipe w = (w1, Some (r, wr))"
  shows "w1 = w\<lparr>pipe_script := tl (pipe_script w), open_fds := wr # r # open_fds w,
                 trace := trace w @ [Ev_pipe r wr]\<rparr>"
    and "r = lowest_unused (open_fds w)" and "wr = lowest_unused (r # open_fds w)"
  using assms by (auto simp: pipe_def log_event_def Let_def split: list.splits reply.splits)

lemma launch_procs_pipes:
  assumes "launch_procs m n k w j = (w', j', None)" and "n = length (procs j)" and "fds_ok j"
  shows "length (procs j') = n \<and>
     filter is_pipe (trace w') =
       filter is_pipe (trace w) @
       map (\<lambda>i. Ev_pipe (fds (procs j' ! Suc i) ! 0) (fds (procs j' ! i) ! 1)) [k..<n - 1] \<and>
     (\<forall>i<k. i < n \<longrightarrow> fds (procs j' ! i) = fds (procs j ! i)) \<and>
     (k < n \<longrightarrow> fds (procs j' ! k) ! 0 = fds (procs j ! k) ! 0) \<and>
     (k < n \<longrightarrow> fds (procs j' ! (n - 1)) ! 1 = fds (procs j ! (n - 1)) ! 1)"
  using assms
proof (induction "n - k" arbitrary: k w j)
  case 0
  then have "\<not> k < n" by simp
  with "0.prems" show ?case
    by (simp add: launch_procs_done)
next
  case (Suc d)
  then have kn: "k < n" by simp
  from Suc.prems(1) kn obtain w1 j1 w2 j2 where
    wp: "wire_pipe n k w j = (w1, j1, True)" and
    lp: "launch_proc m k w1 j1 = (w2, j2, None)" and
    rec: "launch_procs m n (Suc k) (fd_cleanup (fds (procs j2 ! k)) 3 w2) j2 = (w', j', None)"
    by (rule launch_procs_NoneE)
  note fr = launch_proc_frame [OF lp]
  have len1: "length (procs j1) = n" and ok1: "fds_ok j1"
    using wp Suc.prems(2,3) by (auto elim!: wire_pipe_TrueE)
  have len2: "length (procs j2) = n" and fds2: "\<And>i. i < n \<Longrightarrow> fds (procs j2 ! i) = fds (procs j1 ! i)"
    using map_fds_nth [OF fr(1)] len1 kn by auto
  have ok2: "fds_ok j2"
    using fds_ok_cong [OF fr(1)] ok1 by simp
  have d: "d = n - Suc k" using Suc.hyps(2) by simp
  note IH = Suc.hyps(1) [OF d rec len2 [symmetric] ok2]
  have tr2: "filter is_pipe (trace (fd_cleanup (fds (procs j2 ! k)) 3 w2)) = filter is_pipe (trace w1)"
    by (simp add: fd_cleanup_eq fr(8) filter_map comp_def)
  from IH have same_k: "fds (procs j' ! k) = fds (procs j1 ! k)"
    using kn fds2 by simp
  from wp show ?case
  proof (cases rule: wire_pipe_TrueE)
    case last
    then have "[k..<n - 1] = []" by simp
    with IH tr2 last kn same_k fds2 show ?thesis
      by auto
  next
    case (inner r wr)
    then have k1: "k < n - 1" and sk: "Suc k < n" using kn by auto
    have upt: "[k..<n - 1] = k # [Suc k..<n - 1]"
      using k1 by (simp add: upt_conv_Cons)
    have len3: "length (fds (procs j ! k)) = 3" "length (fds (procs j ! Suc k)) = 3"
      using fds_ok_nth [OF Suc.prems(3)] Suc.prems(2) kn sk by auto
    have f1k: "fds (procs j1 ! k) = (fds (procs j ! k))[1 := wr]"
      using inner(3) kn Suc.prems(2) by (simp add: set_fd_nth)
    have f1s: "fds (procs j1 ! Suc k) = (fds (procs j ! Suc k))[0 := r]"
      using inner(3) sk Suc.prems(2) by (simp add: set_fd_nth)
    have f1i: "\<And>i. i < n \<Longrightarrow> i \<noteq> k \<Longrightarrow> i \<noteq> Suc k \<Longrightarrow> fds (procs j1 ! i) = fds (procs j ! i)"
      using inner(3) Suc.prems(2) by (simp add: set_fd_nth)
    have trw: "filter is_pipe (trace w1) = filter is_pipe (trace w) @ [Ev_pipe r wr]"
      using pipe_SomeD(1) [OF inner(2)] by simp
    from IH sk have sk0: "fds (procs j' ! Suc k) ! 0 = r"
      using fds2 [OF sk] f1s len3 by simp
    have k1': "fds (procs j' ! k) ! 1 = wr"
      using same_k f1k len3 by simp
    have k0: "fds (procs j' ! k) ! 0 = fds (procs j ! k) ! 0"
      using same_k f1k by simp
    have lastp: "fds (procs j' ! (n - 1)) ! 1 = fds (procs j ! (n - 1)) ! 1"
    proof (cases "Suc k = n - 1")
      case True
      with IH sk fds2 [OF sk] f1s show ?thesis by simp
    next
      case False
      with IH sk k1 fds2 [of "n - 1"] f1i [of "n - 1"] show ?thesis by simp
    qed
    have before: "\<forall>i<k. i < n \<longrightarrow> fds (procs j' ! i) = fds (procs j ! i)"
      using IH fds2 f1i by auto
    have len: "length (procs j') = n"
      using IH by simp
    from IH have "filter is_pipe (trace w') =
        filter is_pipe (trace (fd_cleanup (fds (procs j2 ! k)) 3 w2)) @
        map (\<lambda>i. Ev_pipe (fds (procs j' ! Suc i) ! 0) (fds (procs j' ! i) ! 1)) [Suc k..<n - 1]"
      by blast
    moreover have "map (\<lambda>i. Ev_pipe (fds (procs j' ! Suc i) ! 0) (fds (procs j' ! i) ! 1)) [k..<n - 1] =
        Ev_pipe r wr #
        map (\<lambda>i. Ev_pipe (fds (procs j' ! Suc i) ! 0) (fds (procs j' ! i) ! 1)) [Suc k..<n - 1]"
      using sk0 k1' by (subst upt) simp
    ultimately have tr: "filter is_pipe (trace w') =
        filter is_pipe (trace w) @
        map (\<lambda>i. Ev_pipe (fds (procs j' ! Suc i) ! 0) (fds (procs j' ! i) ! 1)) [k..<n - 1]"
      using tr2 trw by simp
    show ?thesis
      using len tr before k0 lastp by blast
  qed
qed

lemma sys_open_pipes: "filter is_pipe (trace (fst (sys_open f fl md w))) = filter is_pipe (trace w)"
  by (simp add: sys_open_def log_event_def Let_def split: list.splits reply.splits)

lemma open_io_pipes:
  "filter is_pipe (trace (fst (open_io m specs i io_fd w))) = filter is_pipe (trace w)"
proof (induction specs arbitrary: i io_fd w)
  case Nil
  then show ?case by simp
next
  case (Cons spec specs)
  show ?case
  proof (cases "path spec")
    case None
    then show ?thesis
      by (simp add: Cons.IH fd_cleanup_eq stopif_msg_def log_event_def filter_map comp_def)
  next
    case (Some f)
    obtain w1 fd where op: "sys_open f (oflag spec) FILE_MASK w = (w1, fd)"
      by (cases "sys_open f (oflag spec) FILE_MASK w")
    with sys_open_pipes [of f "oflag spec" FILE_MASK w]
    have "filter is_pipe (trace w1) = filter is_pipe (trace w)" by simp
    with Some op show ?thesis
      by (simp add: Cons.IH fd_cleanup_eq stopif_msg_def log_event_def filter_map comp_def)
  qed
qed

lemma dispose_frame:
  "open_fds (dispose j w) = open_fds w"
  "filter is_pipe (trace (dispose j w)) = filter is_pipe (trace w)"
  "filter is_fork (trace (dispose j w)) = filter is_fork (trace w)"
  "filter is_close (trace (dispose j w)) = filter is_close (trace w)"
  "pgrp (dispose j w) = pgrp w"
  by (simp_all add: dispose_def wait_for_job_def send_to_background_def send_to_foreground_def
      format_job_info_def log_event_def)

lemma bind_io_simps [simp]:
  "length (procs (bind_io io_fd j)) = length (procs j)"
  "fds_ok (bind_io io_fd j) = fds_ok j"
  "pgid (bind_io io_fd j) = pgid j" "bkg (bind_io io_fd j) = bkg j"
  "map argv (procs (bind_io io_fd j)) = map argv (procs j)"
  by (simp_all add: bind_io_def Let_def)

lemma bind_io_last:
  assumes "fds_ok j" "procs j \<noteq> []"
  shows "fds (procs (bind_io io_fd j) ! (length (procs j) - 1)) ! 1 = io_fd ! 1"
proof -
  let ?n = "length (procs j)"
  have n: "?n - 1 < ?n" using assms(2) by simp
  let ?j0 = "set_fd 0 0 (io_fd ! 0) j"
  have "length (fds (procs ?j0 ! (?n - 1))) = 3"
    using fds_ok_nth [of ?j0 "?n - 1"] assms(1) n by simp
  then show ?thesis
    using n by (simp add: bind_io_def Let_def set_fd_nth)
qed

lemma launch_completesE:
  assumes "launch_completes m w j"
  obtains w1 io_fd w2 j2 where
    "open_io m (io j) 0 [0, 1, 2] w = (w1, Inr io_fd)" "procs j \<noteq> []"
    "launch_procs m (length (procs j)) 0 w1 (bind_io io_fd j) = (w2, j2, None)"
    "launch_job m w j = (dispose j2 w2, j2, Returned 0)"
proof -
  obtain w1 r where o: "open_io m (io j) 0 [0, 1, 2] w = (w1, r)"
    by (cases "open_io m (io j) 0 [0, 1, 2] w")
  with assms obtain io_fd where r: "r = Inr io_fd"
    by (cases r) (auto simp: launch_completes_def)
  obtain w2 j2 out where l: "launch_procs m (length (procs j)) 0 w1 (bind_io io_fd j) = (w2, j2, out)"
    by (cases "launch_procs m (length (procs j)) 0 w1 (bind_io io_fd j)")
  from assms o r l have ne: "procs j \<noteq> []" and out: "out = None"
    by (auto simp: launch_completes_def)
  from o r l ne out have "launch_job m w j = (dispose j2 w2, j2, Returned 0)"
    by (simp add: launch_job_def)
  with o r l ne out that show thesis by blast
qed

lemma launch_job_success_returns_zero:
  "launch_completes m w j \<Longrightarrow> snd (snd (launch_job m w j)) = Returned 0"
  by (erule launch_completesE) simp

text \<open>
  C2. In a launch that runs through, of a job with \<open>N\<close> processes, \<^verbatim>\<open>pipe\<close> is called
  \<open>N - 1\<close> times, and the pipes created are, from left to right, those between the adjacent
  processes: the write end of the \<open>i\<close>-th is \<^verbatim>\<open>fds[1]\<close> of process \<open>i\<close> and its read end is
  \<^verbatim>\<open>fds[0]\<close> of process \<open>i + 1\<close>. The last process gets no pipe: its \<^verbatim>\<open>fds[1]\<close> is
  \<^verbatim>\<open>io_fd[1]\<close>, the standard output or its redirection.
\<close>

theorem pipes_wire_adjacent_processes:
  assumes "launch_completes m w j" and "fds_ok j"
    and "launch_job m w j = (w', j', out)"
  shows "length (procs j') = length (procs j) \<and>
     filter is_pipe (trace w') =
       filter is_pipe (trace w) @
       map (\<lambda>i. Ev_pipe (fds (procs j' ! Suc i) ! 0) (fds (procs j' ! i) ! 1))
         [0..<length (procs j) - 1] \<and>
     length (filter is_pipe (trace w')) =
       length (filter is_pipe (trace w)) + (length (procs j) - 1) \<and>
     (case snd (open_io m (io j) 0 [0, 1, 2] w) of
        Inl code \<Rightarrow> False
      | Inr io_fd \<Rightarrow> fds (procs j' ! (length (procs j) - 1)) ! 1 = io_fd ! 1)"
proof -
  from assms(1) obtain w1 io_fd w2 j2 where
    o: "open_io m (io j) 0 [0, 1, 2] w = (w1, Inr io_fd)" and ne: "procs j \<noteq> []" and
    l: "launch_procs m (length (procs j)) 0 w1 (bind_io io_fd j) = (w2, j2, None)" and
    lj: "launch_job m w j = (dispose j2 w2, j2, Returned 0)"
    by (rule launch_completesE)
  from lj assms(3) have w': "w' = dispose j2 w2" and j': "j' = j2"
    by simp_all
  have tr1: "filter is_pipe (trace w1) = filter is_pipe (trace w)"
    using open_io_pipes [of m "io j" 0 "[0, 1, 2]" w] o by simp
  note lp = launch_procs_pipes [OF l, simplified, OF assms(2)]
  have len: "length (procs j') = length (procs j)"
    using lp j' by simp
  have tr: "filter is_pipe (trace w') =
       filter is_pipe (trace w) @
       map (\<lambda>i. Ev_pipe (fds (procs j' ! Suc i) ! 0) (fds (procs j' ! i) ! 1))
         [0..<length (procs j) - 1]"
    using lp tr1 by (simp add: w' j' dispose_frame)
  have cnt: "length (filter is_pipe (trace w')) =
       length (filter is_pipe (trace w)) + (length (procs j) - 1)"
    by (simp add: tr)
  have lst: "fds (procs j' ! (length (procs j) - 1)) ! 1 = io_fd ! 1"
    using lp ne bind_io_last [OF assms(2) ne, of io_fd] by (simp add: j')
  show ?thesis
    using len tr cnt lst o by simp
qed

theorem pipes_wire_adjacent_processes_witness:
  "launch_completes example_config pipeline_world pipeline_job \<and> fds_ok pipeline_job \<and>
   filter is_pipe (trace (fst (launch_job example_config pipeline_world pipeline_job))) =
     [Ev_pipe 5 6, Ev_pipe 3 6] \<and>
   map fds (procs (fst (snd (launch_job example_config pipeline_world pipeline_job)))) =
     [[3, 6, 2], [5, 6, 2], [3, 4, 2]]"
proof -
  have lc: "launch_completes example_config pipeline_world pipeline_job"
    by code_simp
  have ok: "fds_ok pipeline_job"
    by code_simp
  have fd: "map fds (procs (fst (snd (launch_job example_config pipeline_world pipeline_job)))) =
      [[3, 6, 2], [5, 6, 2], [3, 4, 2]]"
    by code_simp
  have nth:
    "fds (procs (fst (snd (launch_job example_config pipeline_world pipeline_job))) ! 0) ! 1 = 6"
    "fds (procs (fst (snd (launch_job example_config pipeline_world pipeline_job))) ! Suc 0) ! 0 = 5"
    "fds (procs (fst (snd (launch_job example_config pipeline_world pipeline_job))) ! Suc 0) ! 1 = 6"
    "fds (procs (fst (snd (launch_job example_config pipeline_world pipeline_job))) ! Suc (Suc 0)) ! 0 = 3"
    by code_simp+
  have n: "[0..<length (procs pipeline_job) - 1] = [0, Suc 0]"
    and t: "trace pipeline_world = []"
    by code_simp+
  have col: "launch_job example_config pipeline_world pipeline_job =
      (fst (launch_job example_config pipeline_world pipeline_job),
       fst (snd (launch_job example_config pipeline_world pipeline_job)),
       snd (snd (launch_job example_config pipeline_world pipeline_job)))"
    by simp
  from pipes_wire_adjacent_processes [OF lc ok col]
  have "filter is_pipe (trace (fst (launch_job example_config pipeline_world pipeline_job))) =
      [Ev_pipe 5 6, Ev_pipe 3 6]"
    unfolding n t using nth by simp
  with lc ok fd show ?thesis
    by blast
qed

subsection \<open>The value returned\<close>

text \<open>
  C1. The comment above \<^verbatim>\<open>launch_job\<close> promises the exit status of the job's last process,
  but the function ends in \<^verbatim>\<open>return 0\<close>: every launch that runs through returns 0
  (\<open>launch_job_success_returns_zero\<close>). For the job \<^verbatim>\<open>cd /nonexistent\<close> in the example
  shell every launch step succeeds, the one process is a builtin that completes with exit
  code 1, and \<^verbatim>\<open>launch_job\<close> returns 0.
\<close>

theorem launch_job_ignores_exit_code:
  "launch_completes example_config example_shell cd_job \<and>
   map completed (procs (fst (snd (launch_job example_config example_shell cd_job)))) = [True] \<and>
   map exit_code (procs (fst (snd (launch_job example_config example_shell cd_job)))) = [1] \<and>
   snd (snd (launch_job example_config example_shell cd_job)) = Returned 0"
  by code_simp

subsection \<open>Registering the builtins\<close>

lemma alloc_frame:
  assumes "alloc w = (w1, ok)"
  shows "lookup_table w1 = lookup_table w" "atexit_count w1 = atexit_count w"
    "trace w1 = trace w" "open_fds w1 = open_fds w"
  using assms by (auto simp: alloc_def split: list.splits reply.splits)

lemma add_node_ok:
  assumes "add_node k v w = (w1, 0)"
  shows "lookup_table w1 = (k, v) # lookup_table w" "atexit_count w1 = atexit_count w"
    "trace w1 = trace w" "open_fds w1 = open_fds w"
  using assms
  by (auto simp: add_node_def alloc_def split: list.splits reply.splits prod.splits bool.splits)

lemma register_builtins_ok:
  assumes "register_builtins bs w = (w', None)"
  shows "lookup_table w' = rev (map binding_of bs) @ lookup_table w \<and>
         atexit_count w' = atexit_count w \<and> trace w' = trace w \<and> open_fds w' = open_fds w"
  using assms
proof (induction bs arbitrary: w)
  case Nil
  then show ?case by simp
next
  case (Cons e bs)
  obtain name f where e: "e = (name, f)" by (cases e)
  obtain w1 ok where a: "alloc w = (w1, ok)" by (cases "alloc w")
  obtain w2 r where n: "add_node name \<lparr>type = CMD, cmd = f\<rparr> w1 = (w2, r)"
    by (cases "add_node name \<lparr>type = CMD, cmd = f\<rparr> w1")
  from Cons.prems e a n have ok: "ok" and r: "r = 0" and
    rec: "register_builtins bs w2 = (w', None)"
    by (auto split: if_splits bool.splits)
  from Cons.IH [OF rec] alloc_frame [OF a] add_node_ok [OF n [unfolded r]] e
  show ?case
    by (simp add: binding_of_def)
qed

lemma register_builtins_not_true:
  "register_builtins bs w = (w', Some r) \<Longrightarrow> r \<noteq> Init_returned True"
proof (induction bs arbitrary: w)
  case Nil
  then show ?case by simp
next
  case (Cons e bs)
  obtain name f where e: "e = (name, f)" by (cases e)
  from Cons.prems Cons.IH show ?case
    unfolding e by (auto split: prod.splits bool.splits if_splits)
qed

lemma atexit_ok:
  assumes "atexit w = (w1, 0)"
  shows "lookup_table w1 = lookup_table w" "atexit_count w1 = Suc (atexit_count w)"
    "trace w1 = trace w @ [Ev_atexit]"
  using assms
  by (auto simp: atexit_def alloc_def log_event_def split: list.splits reply.splits prod.splits bool.splits)

lemma initialize_builtins_ok:
  assumes "initialize_builtins w = (w1, Init_returned True)"
  shows "lookup_table w1 = rev (map binding_of (zip builtin_names builtin_funcs))"
    and "atexit_count w1 = Suc (atexit_count w)"
    and "trace w1 = trace w @ [Ev_atexit]"
proof -
  let ?w0 = "w\<lparr>lookup_table := new_table\<rparr>"
  obtain wr res where reg: "register_builtins (zip builtin_names builtin_funcs) ?w0 = (wr, res)"
    by (cases "register_builtins (zip builtin_names builtin_funcs) ?w0")
  obtain wa r where at: "atexit wr = (wa, r)"
    by (cases "atexit wr")
  from assms reg at register_builtins_not_true [of _ ?w0 wr]
  have res: "res = None" and r: "r = 0" and w1: "w1 = wa"
    by (auto simp: initialize_builtins_def split: option.splits if_splits)
  from register_builtins_ok [OF reg [unfolded res]] atexit_ok [OF at [unfolded r]] w1
  show "lookup_table w1 = rev (map binding_of (zip builtin_names builtin_funcs))"
    and "atexit_count w1 = Suc (atexit_count w)"
    and "trace w1 = trace w @ [Ev_atexit]"
    by (simp_all add: new_table_def)
qed

text \<open>
  C9. When two calls of \<^verbatim>\<open>initialize_builtins\<close> in a row both return true, the lookup
  table after the second is the table after the first: the three builtin names, each bound
  once, to a command-kind binding of its function, which is what a lookup filtered to
  commands finds. Each of the two calls registers the teardown \<^verbatim>\<open>cleanup_builtins\<close> with
  \<^verbatim>\<open>atexit\<close>; the table is rebuilt from a new one, so only the handler count differs.
\<close>

theorem initialize_builtins_idempotent:
  assumes "initialize_builtins w = (w1, Init_returned True)"
    and "initialize_builtins w1 = (w2, Init_returned True)"
  shows "lookup_table w2 = lookup_table w1 \<and>
     map fst (lookup_table w1) = rev builtin_names \<and> distinct (map fst (lookup_table w1)) \<and>
     map (\<lambda>name. find_node name filter_command (lookup_table w1)) builtin_names =
       map (\<lambda>f. Some \<lparr>type = CMD, cmd = f\<rparr>) builtin_funcs \<and>
     atexit_count w1 = Suc (atexit_count w) \<and> atexit_count w2 = Suc (atexit_count w1)"
  using initialize_builtins_ok [OF assms(1)] initialize_builtins_ok [OF assms(2)]
  by (simp add: builtin_names_def builtin_funcs_def binding_of_def filter_command_def)

theorem initialize_builtins_idempotent_witness:
  "snd (initialize_builtins init_world) = Init_returned True \<and>
   snd (initialize_builtins (fst (initialize_builtins init_world))) = Init_returned True \<and>
   lookup_table (fst (initialize_builtins (fst (initialize_builtins init_world)))) =
     lookup_table (fst (initialize_builtins init_world)) \<and>
   lookup_table (fst (initialize_builtins init_world)) = example_table \<and>
   atexit_count (fst (initialize_builtins (fst (initialize_builtins init_world)))) = 2"
proof -
  have s1: "snd (initialize_builtins init_world) = Init_returned True"
    and s2: "snd (initialize_builtins (fst (initialize_builtins init_world))) = Init_returned True"
    and t: "lookup_table (fst (initialize_builtins init_world)) = example_table"
    and c: "atexit_count init_world = 0"
    by code_simp+
  have r1: "initialize_builtins init_world =
      (fst (initialize_builtins init_world), Init_returned True)"
    and r2: "initialize_builtins (fst (initialize_builtins init_world)) =
      (fst (initialize_builtins (fst (initialize_builtins init_world))), Init_returned True)"
    using s1 s2 by (simp_all add: prod_eq_iff)
  note inst = initialize_builtins_idempotent [OF r1 r2]
  have "lookup_table (fst (initialize_builtins (fst (initialize_builtins init_world)))) =
      lookup_table (fst (initialize_builtins init_world))"
    using inst by blast
  moreover have "atexit_count (fst (initialize_builtins (fst (initialize_builtins init_world)))) = 2"
    using inst c by simp
  ultimately show ?thesis
    using s1 s2 t by blast
qed

subsection \<open>Builtin or fork\<close>


lemma find_node_NoneD:
  "find_node k flt t = None \<Longrightarrow> (k, b) \<in> set t \<Longrightarrow> \<not> flt b"
  by (induction t) (auto split: if_splits)

lemma cleanup_builtins_pow:
  "trace ((cleanup_builtins ^^ n) w) = trace w @ replicate n Ev_free_table"
proof (induction n)
  case 0
  then show ?case by simp
next
  case (Suc n)
  then show ?case
    by (simp add: cleanup_builtins_def free_table_def log_event_def replicate_append_same)
qed

lemma call_builtin_forks:
  "filter is_fork (trace (fst (call_builtin m f p w))) = filter is_fork (trace w)"
  by (cases f)
     (auto simp: m_cd_def m_exit_def m_help_def run_atexit_def cleanup_builtins_pow sys_defs
        Let_def split: option.splits if_splits prod.splits)

lemma apply_env_forks: "filter is_fork (trace (apply_env es w)) = filter is_fork (trace w)"
proof (induction es arbitrary: w)
  case Nil
  then show ?case by simp
next
  case (Cons e es)
  obtain name val where e: "e = (name, val)" by (cases e)
  show ?case
    unfolding e
    by (simp add: Cons.IH setenv_def unsetenv_def stopif_msg_def log_event_def)
qed

lemma dup_fds_forks: "filter is_fork (trace (dup_fds fs i w)) = filter is_fork (trace w)"
  by (induction fs arbitrary: i w) (simp_all add: dup2_def log_event_def)

lemma exec_proc_forks:
  "filter is_fork (trace (fst (exec_proc m p w))) = filter is_fork (trace w)"
  by (simp add: exec_proc_def execvp_def Let_def stopif_msg_def log_event_def dup_fds_forks
      apply_env_forks split: list.splits reply.splits)

lemma exec_proc_forksD:
  "exec_proc m p w = (w', out) \<Longrightarrow> filter is_fork (trace w') = filter is_fork (trace w)"
  using exec_proc_forks [of m p w] by simp

lemma fork_forks:
  "filter is_fork (trace (fst (fork w))) = filter is_fork (trace w) @ [Ev_fork (snd (fork w))]"
  by (simp add: fork_def fork_failure_def log_event_def split: list.splits fork_reply.splits)

subsection \<open>A failed fork\<close>

lemma exec_proc_outcome:
  "snd (exec_proc m p w) = Child_exec (argv p) \<or> snd (exec_proc m p w) = Child_exited (M_FAILED_EXEC m)"
  by (simp add: exec_proc_def Let_def split: prod.splits)

lemma fork_failedD:
  assumes "fork w = (w1, c)" and "c < 0"
  shows "c = - 1" "trace w1 = trace w @ [Ev_fork c]" "open_fds w1 = open_fds w"
    "pgrp w1 = pgrp w" "self_pid w1 = self_pid w"
  using assms
  by (auto simp: fork_def fork_failure_def log_event_def
      split: list.splits fork_reply.splits if_splits)

lemma wire_pipe_pids:
  "wire_pipe n k w j = (w1, j1, ok) \<Longrightarrow> map pid (procs j1) = map pid (procs j)"
  by (auto simp: wire_pipe_def set_fd_def map_update map_update_same
      split: if_splits prod.splits option.splits)

lemma launch_job_aborted:
  assumes "open_io m (io j) 0 [0, 1, 2] w = (w1, Inr io_fd)" and "procs j \<noteq> []"
    and "launch_procs m (length (procs j)) 0 w1 (bind_io io_fd j) = (w2, j2, Some out)"
  shows "launch_job m w j = (w2, j2, out)"
  using assms by (simp add: launch_job_def)

subsection \<open>A failed redirection\<close>

lemma opened_fds_append [simp]: "opened_fds (xs @ ys) = opened_fds xs @ opened_fds ys"
  by (induction xs rule: opened_fds.induct) simp_all

lemma closed_fds_append [simp]: "closed_fds (xs @ ys) = closed_fds xs @ closed_fds ys"
  by (induction xs rule: closed_fds.induct) simp_all

lemma closed_fds_map [simp]: "closed_fds (map Ev_close xs) = xs"
  by (induction xs) simp_all

lemma opened_fds_map [simp]: "opened_fds (map Ev_close xs) = []"
  by (induction xs) simp_all

lemma lowest_unused_from_ge: "c \<le> lowest_unused_from n c used"
proof (induction n arbitrary: c)
  case 0
  then show ?case by simp
next
  case (Suc n)
  have "c \<le> c + 1" by simp
  also have "\<dots> \<le> lowest_unused_from n (c + 1) used" by (rule Suc.IH)
  finally show ?case by simp
qed

lemma lowest_unused_from_fresh:
  "card {x \<in> set used. c \<le> x} \<le> n \<Longrightarrow> lowest_unused_from n c used \<notin> set used"
proof (induction n arbitrary: c)
  case 0
  then have "{x \<in> set used. c \<le> x} = {}" by simp
  then show ?case by auto
next
  case (Suc n)
  show ?case
  proof (cases "c \<in> set used")
    case False
    then show ?thesis by simp
  next
    case True
    have "{x \<in> set used. c + 1 \<le> x} = {x \<in> set used. c \<le> x} - {c}"
      by auto
    moreover have "c \<in> {x \<in> set used. c \<le> x}"
      using True by simp
    ultimately have "card {x \<in> set used. c + 1 \<le> x} = card {x \<in> set used. c \<le> x} - 1"
      by simp
    with Suc.prems have "card {x \<in> set used. c + 1 \<le> x} \<le> n"
      by simp
    from Suc.IH [OF this] True show ?thesis
      by simp
  qed
qed

lemma lowest_unused_fresh: "lowest_unused used \<notin> set used"
proof -
  have "card {x \<in> set used. 0 \<le> x} \<le> card (set used)"
    by (rule card_mono) auto
  also have "\<dots> \<le> length used"
    by (rule card_length)
  finally show ?thesis
    unfolding lowest_unused_def by (rule lowest_unused_from_fresh)
qed

lemma lowest_unused_nonneg: "0 \<le> lowest_unused used"
  unfolding lowest_unused_def by (rule lowest_unused_from_ge)

lemma misplaced_snoc:
  "misplaced k (xs @ [x]) = misplaced k xs @ (if x \<noteq> int (k + length xs) then [x] else [])"
  by (induction xs arbitrary: k) simp_all

lemma misplaced_take_Suc:
  "i < length xs \<Longrightarrow>
   misplaced 0 (take (Suc i) xs) =
     misplaced 0 (take i xs) @ (if xs ! i \<noteq> int i then [xs ! i] else [])"
  by (simp add: take_Suc_conv_app_nth misplaced_snoc)

lemma sys_open_cases:
  obtains (ok) rest where "open_script w = Ok # rest"
      "sys_open f fl md w =
         (w\<lparr>open_script := rest, open_fds := lowest_unused (open_fds w) # open_fds w,
            trace := trace w @ [Ev_open f fl md (lowest_unused (open_fds w))]\<rparr>,
          lowest_unused (open_fds w))"
  | (failed) w1 where "sys_open f fl md w = (w1, - 1)" "open_fds w1 = open_fds w"
      "trace w1 = trace w @ [Ev_open f fl md (- 1)]"
  by (cases "open_script w"; (cases "hd (open_script w)")?)
     (auto simp: sys_open_def log_event_def Let_def)

lemma open_io_failed:
  assumes "open_io m specs i io_fd w = (w1, Inl code)"
    and "i + length specs \<le> length io_fd"
    and "\<forall>k<length io_fd. int k \<in> set (open_fds w)"
    and "\<forall>k<length io_fd. i \<le> k \<longrightarrow> io_fd ! k = int k"
  shows "code = M_FAILED_IO m \<and>
     (\<exists>os. opened_fds (trace w1) = opened_fds (trace w) @ os \<and>
           closed_fds (trace w1) = closed_fds (trace w) @ misplaced 0 (take i io_fd) @ os) \<and>
     set (open_fds w1) = set (open_fds w) - set (misplaced 0 (take i io_fd)) \<and>
     filter is_fork (trace w1) = filter is_fork (trace w) \<and>
     Ev_stderr (strerror m (errno w1)) \<in> set (trace w1)"
  using assms
proof (induction specs arbitrary: i io_fd w)
  case Nil
  then show ?case by simp
next
  case (Cons spec specs)
  from Cons.prems(2) have i: "i < length io_fd" by simp
  with Cons.prems(4) have dflt: "io_fd ! i = int i" by simp
  have cleanup: "code = M_FAILED_IO m \<and>
     (\<exists>os. opened_fds (trace w1) = opened_fds (trace wx) @ os \<and>
           closed_fds (trace w1) = closed_fds (trace wx) @ misplaced 0 (take i io_fd) @ os) \<and>
     set (open_fds w1) = set (open_fds wx) - set (misplaced 0 (take i io_fd)) \<and>
     filter is_fork (trace w1) = filter is_fork (trace wx) \<and>
     Ev_stderr (strerror m (errno w1)) \<in> set (trace w1)"
    if "w1 = fd_cleanup (io_fd[i := fd]) i (stopif_msg (strerror m (errno wx)) wx)"
      and "code = M_FAILED_IO m" for wx fd
    using that i
    by (auto simp: fd_cleanup_eq stopif_msg_def log_event_def filter_map comp_def)
  show ?case
  proof (cases "path spec")
    case None
    with Cons.prems(1) dflt have rec: "open_io m specs (Suc i) io_fd w = (w1, Inl code)"
      by simp
    have "misplaced 0 (take (Suc i) io_fd) = misplaced 0 (take i io_fd)"
      using misplaced_take_Suc [OF i] dflt by simp
    with Cons.IH [OF rec] Cons.prems(2,3,4) show ?thesis
      by simp
  next
    case (Some f)
    show ?thesis
    proof (cases rule: sys_open_cases [of w f "oflag spec" FILE_MASK])
      case (failed wx)
      with Cons.prems(1) Some i
      have "w1 = fd_cleanup (io_fd[i := - 1]) i (stopif_msg (strerror m (errno wx)) wx)"
        and "code = M_FAILED_IO m"
        by simp_all
      from cleanup [OF this] show ?thesis
        using \<open>open_fds wx = open_fds w\<close> \<open>trace wx = trace w @ [Ev_open f (oflag spec) FILE_MASK (- 1)]\<close>
        by simp
    next
      case (ok rest)
      let ?fd = "lowest_unused (open_fds w)"
      let ?w' = "w\<lparr>open_script := rest, open_fds := ?fd # open_fds w,
                    trace := trace w @ [Ev_open f (oflag spec) FILE_MASK ?fd]\<rparr>"
      have fresh: "?fd \<notin> set (open_fds w)" and nn: "?fd \<noteq> - 1"
        using lowest_unused_fresh [of "open_fds w"] lowest_unused_nonneg [of "open_fds w"]
        by auto
      from fresh Cons.prems(3) i have ne: "?fd \<noteq> int i"
        by auto
      from Cons.prems(1) Some ok i nn
      have rec: "open_io m specs (Suc i) (io_fd[i := ?fd]) ?w' = (w1, Inl code)"
        by simp
      have mp: "misplaced 0 (take (Suc i) (io_fd[i := ?fd])) = misplaced 0 (take i io_fd) @ [?fd]"
        using misplaced_take_Suc [of i "io_fd[i := ?fd]"] i ne by simp
      have p2: "Suc i + length specs \<le> length (io_fd[i := ?fd])"
        using Cons.prems(2) by simp
      have p3: "\<forall>k<length (io_fd[i := ?fd]). int k \<in> set (open_fds ?w')"
        using Cons.prems(3) by simp
      have p4: "\<forall>k<length (io_fd[i := ?fd]). Suc i \<le> k \<longrightarrow> io_fd[i := ?fd] ! k = int k"
        using Cons.prems(4) by simp
      from Cons.IH [OF rec p2 p3 p4] obtain os where
        c: "code = M_FAILED_IO m" and
        o: "opened_fds (trace w1) = opened_fds (trace ?w') @ os" and
        cl: "closed_fds (trace w1) =
               closed_fds (trace ?w') @ misplaced 0 (take (Suc i) (io_fd[i := ?fd])) @ os" and
        op: "set (open_fds w1) =
               set (open_fds ?w') - set (misplaced 0 (take (Suc i) (io_fd[i := ?fd])))" and
        fk: "filter is_fork (trace w1) = filter is_fork (trace ?w')" and
        er: "Ev_stderr (strerror m (errno w1)) \<in> set (trace w1)"
        by blast
      have "opened_fds (trace w1) = opened_fds (trace w) @ (?fd # os)"
        using o nn by simp
      moreover have "closed_fds (trace w1) =
          closed_fds (trace w) @ misplaced 0 (take i io_fd) @ (?fd # os)"
        using cl mp by simp
      moreover have "set (open_fds w1) = set (open_fds w) - set (misplaced 0 (take i io_fd))"
        using op mp fresh by auto
      moreover have "filter is_fork (trace w1) = filter is_fork (trace w)"
        using fk by simp
      ultimately show ?thesis
        using c er by blast
    qed
  qed
qed

text \<open>
  C4. When a redirection cannot be opened, in a shell that has its three standard
  descriptors open: \<^verbatim>\<open>launch_job\<close> returns \<^verbatim>\<open>M_FAILED_IO\<close> after printing the error string
  of the failed \<^verbatim>\<open>open\<close>; the descriptors it closed in this call are exactly the ones it
  opened in it, in that order, so that the same descriptors are open as before the call;
  no \<^verbatim>\<open>fork\<close> was made and the job is returned as it was given, no process dispatched.
\<close>

theorem failed_redirection_is_undone:
  assumes "open_io m (io j) 0 [0, 1, 2] w = (w1, Inl code)"
    and "length (io j) = 3" and "std_fds_open w"
  shows "launch_job m w j = (w1, j, Returned (M_FAILED_IO m)) \<and>
     (\<exists>os. opened_fds (trace w1) = opened_fds (trace w) @ os \<and>
           closed_fds (trace w1) = closed_fds (trace w) @ os) \<and>
     set (open_fds w1) = set (open_fds w) \<and>
     filter is_fork (trace w1) = filter is_fork (trace w) \<and>
     Ev_stderr (strerror m (errno w1)) \<in> set (trace w1)"
proof -
  have p2: "0 + length (io j) \<le> length [0, 1, 2 :: int]"
    using assms(2) by simp
  have p3: "\<forall>k<length [0, 1, 2 :: int]. int k \<in> set (open_fds w)"
    using assms(3) by (auto simp: std_fds_open_def less_Suc_eq numeral_3_eq_3)
  have p4: "\<forall>k<length [0, 1, 2 :: int]. 0 \<le> k \<longrightarrow> [0, 1, 2 :: int] ! k = int k"
    by (auto simp: less_Suc_eq numeral_3_eq_3)
  from open_io_failed [OF assms(1) p2 p3 p4] assms(1) show ?thesis
    by (simp add: launch_job_def)
qed

theorem failed_redirection_is_undone_witness:
  "std_fds_open open_fails_world \<and>
   launch_job example_config open_fails_world cat_job =
     (fst (open_io example_config (io cat_job) 0 [0, 1, 2] open_fails_world), cat_job,
      Returned (M_FAILED_IO example_config)) \<and>
   opened_fds (trace (fst (launch_job example_config open_fails_world cat_job))) = [3] \<and>
   closed_fds (trace (fst (launch_job example_config open_fails_world cat_job))) = [3] \<and>
   open_fds (fst (launch_job example_config open_fails_world cat_job)) = [0, 1, 2]"
proof -
  have s: "std_fds_open open_fails_world"
    and n: "length (io cat_job) = 3"
    and r: "snd (open_io example_config (io cat_job) 0 [0, 1, 2] open_fails_world) =
        Inl (M_FAILED_IO example_config)"
    and o: "opened_fds (trace (fst (launch_job example_config open_fails_world cat_job))) = [3]"
      "closed_fds (trace (fst (launch_job example_config open_fails_world cat_job))) = [3]"
      "open_fds (fst (launch_job example_config open_fails_world cat_job)) = [0, 1, 2]"
    by code_simp+
  have oi: "open_io example_config (io cat_job) 0 [0, 1, 2] open_fails_world =
      (fst (open_io example_config (io cat_job) 0 [0, 1, 2] open_fails_world),
       Inl (M_FAILED_IO example_config))"
    using r by (simp add: prod_eq_iff)
  from failed_redirection_is_undone [OF oi n s]
  have "launch_job example_config open_fails_world cat_job =
     (fst (open_io example_config (io cat_job) 0 [0, 1, 2] open_fails_world), cat_job,
      Returned (M_FAILED_IO example_config))"
    by blast
  with s o show ?thesis
    by blast
qed

subsection \<open>Process groups\<close>

lemma set_fd_other: "i \<noteq> k \<Longrightarrow> procs (set_fd k s v j) ! i = procs j ! i"
  by (simp add: set_fd_def)

lemma wire_pipe_frame:
  assumes "wire_pipe n k w j = (w1, j1, ok)"
  shows "pgrp w1 = pgrp w" "interactive w1 = interactive w" "lookup_table w1 = lookup_table w"
    "pgid j1 = pgid j" "map argv (procs j1) = map argv (procs j)"
    "length (procs j1) = length (procs j)"
    "\<forall>i<k. procs j1 ! i = procs j ! i"
  using assms
  by (auto simp: wire_pipe_def pipe_def log_event_def Let_def set_fd_other
      split: if_splits prod.splits option.splits list.splits reply.splits)

lemma fd_cleanup_frame [simp]:
  "pgrp (fd_cleanup fs n w) = pgrp w" "interactive (fd_cleanup fs n w) = interactive w"
  "lookup_table (fd_cleanup fs n w) = lookup_table w"
  by (simp_all add: fd_cleanup_eq)

lemma Set_proc_group_pgrp:
  assumes "Set_proc_group m j c w = (w', j')" and "interactive w"
  shows "pgrp w' =
      (if c = 0 then self_pid w else c,
       if pgid j' = 0 then (if c = 0 then self_pid w else c) else pgid j') # pgrp w"
  using assms
  by (auto simp: Set_proc_group_def Let_def setpgid_def tcsetpgrp_def log_event_def
      split: if_splits)

lemma map_argv_nth:
  "map argv (procs j') = map argv (procs j) \<Longrightarrow> i < length (procs j) \<Longrightarrow>
   argv (procs j' ! i) = argv (procs j ! i)"
  by (metis length_map nth_map)

lemma is_external_cong:
  "argv p' = argv p \<Longrightarrow> is_external t p' = is_external t p"
  by (simp add: is_external_def)

text \<open>One turn of the loop, seen from the process groups.\<close>

lemma launch_proc_pgrp:
  assumes lp: "launch_proc m k w j = (w', j', None)" and k: "k < length (procs j)"
    and int: "interactive w"
  shows "length (procs j') = length (procs j)" (is ?A)
    and "\<forall>i. i \<noteq> k \<longrightarrow> procs j' ! i = procs j ! i" (is ?B)
    and "pgid j \<noteq> 0 \<longrightarrow> pgid j' = pgid j" (is ?C)
    and "\<forall>q. pgid j \<noteq> 0 \<and> map_of (pgrp w) q = Some (pgid j) \<longrightarrow>
           map_of (pgrp w') q = Some (pgid j)" (is ?D)
    and "is_external (lookup_table w) (procs j ! k) \<longrightarrow>
           0 < pid (procs j' ! k) \<and> pgid j' \<noteq> 0 \<and>
           map_of (pgrp w') (pid (procs j' ! k)) = Some (pgid j') \<and>
           (pgid j = 0 \<longrightarrow> pgid j' = pid (procs j' ! k))" (is ?E)
    and "\<not> is_external (lookup_table w) (procs j ! k) \<longrightarrow> pgid j' = pgid j \<and> pgrp w' = pgrp w"
      (is ?F)
proof -
  from lp have "?A \<and> ?B \<and> ?C \<and> ?D \<and> ?E \<and> ?F"
  proof (cases rule: launch_proc_NoneE)
    case (builtin a0 args b r)
    from call_builtin_frame [OF builtin(3)] builtin(1,2,4) k show ?thesis
      by (simp add: is_external_def)
  next
    case (forked a0 args c w1 j2)
    note ff = fork_parent_frame(1) [OF forked(3,4)]
    have int1: "interactive w1" using ff int by simp
    note sj = Set_proc_group_job [OF forked(5)]
    note sw = Set_proc_group_pgrp [OF forked(5) int1]
    have g: "pgid j2 = (if pgid j = 0 then c else pgid j)"
      using sj(4) int1 by simp
    have g0: "pgid j2 \<noteq> 0"
      using g forked(4) by simp
    have pg: "pgrp w' = (c, pgid j2) # inherit_pgrp c w"
      using sw forked(4) g0 ff by simp
    have inh: "\<And>q. q \<noteq> c \<Longrightarrow> map_of (inherit_pgrp c w) q = map_of (pgrp w) q"
      by (simp add: inherit_pgrp_def split: option.splits)
    from forked(1,2,4,6) sj(1-3) g g0 pg inh k show ?thesis
      by (simp add: is_external_def)
  qed
  then show ?A and ?B and ?C and ?D and ?E and ?F
    by blast+
qed

lemma launch_procs_pgrp:
  assumes "launch_procs m n k w j = (w', j', None)" and "n = length (procs j)"
    and "interactive w"
  shows "length (procs j') = n \<and>
    (\<forall>i<k. procs j' ! i = procs j ! i) \<and>
    (pgid j \<noteq> 0 \<longrightarrow> pgid j' = pgid j) \<and>
    (\<forall>q. pgid j \<noteq> 0 \<and> map_of (pgrp w) q = Some (pgid j) \<longrightarrow>
         map_of (pgrp w') q = Some (pgid j)) \<and>
    (\<forall>i. k \<le> i \<and> i < n \<and> is_external (lookup_table w) (procs j ! i) \<longrightarrow>
         0 < pid (procs j' ! i) \<and> map_of (pgrp w') (pid (procs j' ! i)) = Some (pgid j')) \<and>
    (\<forall>i. pgid j = 0 \<and> k \<le> i \<and> i < n \<and> is_external (lookup_table w) (procs j ! i) \<and>
         (\<forall>i'. k \<le> i' \<and> i' < i \<longrightarrow> \<not> is_external (lookup_table w) (procs j ! i')) \<longrightarrow>
         pgid j' = pid (procs j' ! i)) \<and>
    (pgid j = 0 \<and> (\<forall>i. k \<le> i \<and> i < n \<longrightarrow> \<not> is_external (lookup_table w) (procs j ! i)) \<longrightarrow>
         pgid j' = 0)"
  using assms
proof (induction "n - k" arbitrary: k w j)
  case 0
  then have "\<not> k < n" by simp
  with "0.prems" show ?case
    by (auto simp: launch_procs_done)
next
  case (Suc d)
  then have kn: "k < n" by simp
  let ?t = "lookup_table w"
  from Suc.prems(1) kn obtain w1 j1 w2 j2 where
    wp: "wire_pipe n k w j = (w1, j1, True)" and
    lp: "launch_proc m k w1 j1 = (w2, j2, None)" and
    rec: "launch_procs m n (Suc k) (fd_cleanup (fds (procs j2 ! k)) 3 w2) j2 = (w', j', None)"
    by (rule launch_procs_NoneE)
  note wf = wire_pipe_frame [OF wp]
  have len1: "k < length (procs j1)" and int1: "interactive w1"
    using wf kn Suc.prems(2,3) by simp_all
  note st = launch_proc_pgrp [OF lp len1 int1]
  note fr = launch_proc_frame [OF lp]
  have len2: "n = length (procs j2)"
    using st(1) wf(6) Suc.prems(2) by simp
  have int2: "interactive (fd_cleanup (fds (procs j2 ! k)) 3 w2)"
    using fr(7) int1 by simp
  have d: "d = n - Suc k" using Suc.hyps(2) by simp
  note IH = Suc.hyps(1) [OF d rec len2 int2]
  have tab: "lookup_table (fd_cleanup (fds (procs j2 ! k)) 3 w2) = ?t"
    using fr(6) wf(3) by simp
  have pg2: "pgrp (fd_cleanup (fds (procs j2 ! k)) 3 w2) = pgrp w2"
    by simp
  have argv2: "\<And>i. i < n \<Longrightarrow> argv (procs j2 ! i) = argv (procs j ! i)"
    using map_argv_nth [OF fr(2)] map_argv_nth [OF wf(5)] wf(6) Suc.prems(2) by simp
  have ext2: "\<And>i. i < n \<Longrightarrow> is_external ?t (procs j2 ! i) = is_external ?t (procs j ! i)"
    using argv2 by (rule is_external_cong)
  have ext1: "is_external (lookup_table w1) (procs j1 ! k) = is_external ?t (procs j ! k)"
    using map_argv_nth [OF wf(5)] kn Suc.prems(2) wf(3) by (simp add: is_external_def)
  have g1: "pgid j1 = pgid j" and p1: "pgrp w1 = pgrp w"
    using wf by simp_all
  have same_k: "procs j' ! k = procs j2 ! k"
    using IH by simp

  have P1: "length (procs j') = n"
    using IH by simp
  have P2: "\<forall>i<k. procs j' ! i = procs j ! i"
  proof (intro allI impI)
    fix i assume "i < k"
    then have "procs j' ! i = procs j2 ! i" "procs j2 ! i = procs j1 ! i" "procs j1 ! i = procs j ! i"
      using IH st(2) wf(7) by auto
    then show "procs j' ! i = procs j ! i" by simp
  qed
  have P3: "pgid j \<noteq> 0 \<longrightarrow> pgid j' = pgid j"
    using IH st(3) g1 by auto
  have P4: "\<forall>q. pgid j \<noteq> 0 \<and> map_of (pgrp w) q = Some (pgid j) \<longrightarrow>
      map_of (pgrp w') q = Some (pgid j)"
  proof (intro allI impI, elim conjE)
    fix q assume nz: "pgid j \<noteq> 0" and q: "map_of (pgrp w) q = Some (pgid j)"
    have "map_of (pgrp w2) q = Some (pgid j)" and "pgid j2 = pgid j"
      using st(3,4) nz q g1 p1 by auto
    with IH nz pg2 show "map_of (pgrp w') q = Some (pgid j)"
      by auto
  qed
  have at_k: "0 < pid (procs j' ! k) \<and> pgid j' = pgid j2 \<and> pgid j2 \<noteq> 0 \<and>
      map_of (pgrp w') (pid (procs j' ! k)) = Some (pgid j') \<and>
      (pgid j = 0 \<longrightarrow> pgid j' = pid (procs j' ! k))"
    if ex: "is_external ?t (procs j ! k)"
  proof -
    from st(5) ex ext1 have e: "0 < pid (procs j2 ! k)" "pgid j2 \<noteq> 0"
      "map_of (pgrp w2) (pid (procs j2 ! k)) = Some (pgid j2)"
      "pgid j1 = 0 \<longrightarrow> pgid j2 = pid (procs j2 ! k)"
      by auto
    from IH e(2) have g: "pgid j' = pgid j2" by blast
    from IH e(2,3) pg2 have "map_of (pgrp w') (pid (procs j2 ! k)) = Some (pgid j2)"
      by auto
    with e g g1 same_k show ?thesis by simp
  qed
  have not_k: "pgid j2 = pgid j" if "\<not> is_external ?t (procs j ! k)"
    using st(6) that ext1 g1 by simp
  have P5: "\<forall>i. k \<le> i \<and> i < n \<and> is_external ?t (procs j ! i) \<longrightarrow>
      0 < pid (procs j' ! i) \<and> map_of (pgrp w') (pid (procs j' ! i)) = Some (pgid j')"
  proof (intro allI impI, elim conjE)
    fix i assume i: "k \<le> i" "i < n" and ex: "is_external ?t (procs j ! i)"
    show "0 < pid (procs j' ! i) \<and> map_of (pgrp w') (pid (procs j' ! i)) = Some (pgid j')"
    proof (cases "i = k")
      case True
      with at_k ex show ?thesis by simp
    next
      case False
      with i have "Suc k \<le> i" by simp
      moreover have "is_external (lookup_table (fd_cleanup (fds (procs j2 ! k)) 3 w2)) (procs j2 ! i)"
        using ex ext2 [OF i(2)] tab by simp
      ultimately show ?thesis
        using IH i(2) by blast
    qed
  qed
  have P6: "\<forall>i. pgid j = 0 \<and> k \<le> i \<and> i < n \<and> is_external ?t (procs j ! i) \<and>
      (\<forall>i'. k \<le> i' \<and> i' < i \<longrightarrow> \<not> is_external ?t (procs j ! i')) \<longrightarrow>
      pgid j' = pid (procs j' ! i)"
  proof (intro allI impI, elim conjE)
    fix i assume z: "pgid j = 0" and i: "k \<le> i" "i < n" and ex: "is_external ?t (procs j ! i)"
      and mn: "\<forall>i'. k \<le> i' \<and> i' < i \<longrightarrow> \<not> is_external ?t (procs j ! i')"
    show "pgid j' = pid (procs j' ! i)"
    proof (cases "i = k")
      case True
      with at_k ex z show ?thesis by simp
    next
      case False
      with i have ki: "Suc k \<le> i" "k < i" by simp_all
      with mn have "\<not> is_external ?t (procs j ! k)" by simp
      then have z2: "pgid j2 = 0" using not_k z by simp
      have ex2: "is_external (lookup_table (fd_cleanup (fds (procs j2 ! k)) 3 w2)) (procs j2 ! i)"
        using ex ext2 [OF i(2)] tab by simp
      have mn2: "\<forall>i'. Suc k \<le> i' \<and> i' < i \<longrightarrow>
          \<not> is_external (lookup_table (fd_cleanup (fds (procs j2 ! k)) 3 w2)) (procs j2 ! i')"
        using mn ext2 tab i(2) by auto
      from IH z2 ki(1) i(2) ex2 mn2 show ?thesis
        by blast
    qed
  qed
  have P7: "pgid j = 0 \<and> (\<forall>i. k \<le> i \<and> i < n \<longrightarrow> \<not> is_external ?t (procs j ! i)) \<longrightarrow> pgid j' = 0"
  proof (intro impI, elim conjE)
    assume z: "pgid j = 0" and no: "\<forall>i. k \<le> i \<and> i < n \<longrightarrow> \<not> is_external ?t (procs j ! i)"
    from no kn have "\<not> is_external ?t (procs j ! k)" by simp
    then have z2: "pgid j2 = 0" using not_k z by simp
    have "\<forall>i. Suc k \<le> i \<and> i < n \<longrightarrow>
        \<not> is_external (lookup_table (fd_cleanup (fds (procs j2 ! k)) 3 w2)) (procs j2 ! i)"
      using no ext2 tab by auto
    with IH z2 show "pgid j' = 0" by blast
  qed
  from P1 P2 P3 P4 P5 P6 P7 show ?case
    by blast
qed

lemma open_io_frame:
  "interactive (fst (open_io m specs i io_fd w)) = interactive w \<and>
   lookup_table (fst (open_io m specs i io_fd w)) = lookup_table w \<and>
   pgrp (fst (open_io m specs i io_fd w)) = pgrp w"
proof (induction specs arbitrary: i io_fd w)
  case Nil
  then show ?case by simp
next
  case (Cons spec specs)
  show ?case
  proof (cases "path spec")
    case None
    then show ?thesis
      by (simp add: Cons.IH fd_cleanup_eq stopif_msg_def log_event_def)
  next
    case (Some f)
    show ?thesis
    proof (cases rule: sys_open_cases [of w f "oflag spec" FILE_MASK])
      case (ok rest)
      with Some show ?thesis
        by (simp add: Cons.IH fd_cleanup_eq stopif_msg_def log_event_def)
    next
      case (failed wx)
      moreover from failed(1) have "interactive wx = interactive w \<and>
          lookup_table wx = lookup_table w \<and> pgrp wx = pgrp w"
        by (auto simp: sys_open_def log_event_def Let_def split: list.splits reply.splits)
      ultimately show ?thesis
        using Some by (simp add: Cons.IH fd_cleanup_eq stopif_msg_def log_event_def)
    qed
  qed
qed

lemma bind_io_argv:
  "i < length (procs j) \<Longrightarrow> argv (procs (bind_io io_fd j) ! i) = argv (procs j ! i)"
  by (rule map_argv_nth) simp_all

lemma apply_env_pgrp: "pgrp (apply_env es w) = pgrp w"
proof (induction es arbitrary: w)
  case Nil
  then show ?case by simp
next
  case (Cons e es)
  obtain name val where e: "e = (name, val)" by (cases e)
  show ?case
    unfolding e
    by (simp add: Cons.IH setenv_def unsetenv_def stopif_msg_def log_event_def)
qed

lemma dup_fds_pgrp: "pgrp (dup_fds fs i w) = pgrp w"
  by (induction fs arbitrary: i w) (simp_all add: dup2_def log_event_def)

lemma exec_proc_pgrp: "pgrp (fst (exec_proc m p w)) = pgrp w"
  by (simp add: exec_proc_def execvp_def Let_def stopif_msg_def log_event_def dup_fds_pgrp
      apply_env_pgrp split: list.splits reply.splits)

lemma child_joins_group:
  assumes "is_external (lookup_table w) (procs j ! k)" and "interactive w"
    and "fork_script w = Fork_child c # rest" and "0 < c"
  shows "map_of (pgrp (fst (launch_proc m k w j))) c = Some (if pgid j = 0 then c else pgid j) \<and>
         pgid (fst (snd (launch_proc m k w j))) = pgid j"
proof -
  from assms(1) obtain a0 args where a: "argv (procs j ! k) = a0 # args"
    and f: "find_node a0 filter_command (lookup_table w) = None"
    by (auto simp: is_external_def split: list.splits)
  let ?w1 = "log_event (Ev_fork 0) (w\<lparr>fork_script := rest, pgrp := inherit_pgrp c w, self_pid := c\<rparr>)"
  have fk: "fork w = (?w1, 0)"
    using assms(3,4) by (simp add: fork_def)
  obtain w2 j2 where sp: "Set_proc_group m j 0 ?w1 = (w2, j2)"
    by (cases "Set_proc_group m j 0 ?w1")
  have int1: "interactive ?w1"
    using assms(2) by (simp add: log_event_def)
  have g: "pgid j2 = pgid j"
    using Set_proc_group_job(4) [OF sp] by simp
  have "pgrp w2 = (c, if pgid j = 0 then c else pgid j) # pgrp ?w1"
    using Set_proc_group_pgrp [OF sp int1] g by (simp add: log_event_def)
  then have "map_of (pgrp w2) c = Some (if pgid j = 0 then c else pgid j)"
    by simp
  moreover have "fst (launch_proc m k w j) =
      fst (exec_proc m (procs j ! k) (reset_ignored_signals w2))"
    and "fst (snd (launch_proc m k w j)) = j2"
    by (simp_all add: launch_proc_def Let_def a f fk sp split: prod.splits)
  ultimately show ?thesis
    using g by (simp add: exec_proc_pgrp reset_ignored_signals_def log_event_def)
qed

text \<open>
  C6. In an interactive shell, for a job whose \<^verbatim>\<open>pgid\<close> is 0 when it is launched and whose
  launch runs through: every process that was forked has a positive pid and is, in the
  kernel's table, in the group named by the job's \<^verbatim>\<open>pgid\<close>; that \<^verbatim>\<open>pgid\<close> is the pid of the
  first process forked, and it is still 0 when none was (a job of builtins). The child's
  own call, made with \<^verbatim>\<open>PID\<close> 0, does the same from its side: the first child, forked
  while the \<^verbatim>\<open>pgid\<close> is 0, puts itself by \<^verbatim>\<open>setpgid(0, 0)\<close> into the group of its own pid
  (in its copy of the job the \<^verbatim>\<open>pgid\<close> stays 0), and a later child into the group the job
  already has. (\<^verbatim>\<open>setpgid\<close> is taken to succeed.)
\<close>

theorem job_shares_one_process_group:
  assumes "launch_completes m w j" and "interactive w" and "pgid j = 0"
    and "launch_job m w j = (w', j', out)"
  shows "(\<forall>i<length (procs j). is_external (lookup_table w) (procs j ! i) \<longrightarrow>
            0 < pid (procs j' ! i) \<and> map_of (pgrp w') (pid (procs j' ! i)) = Some (pgid j')) \<and>
         (\<forall>i<length (procs j). is_external (lookup_table w) (procs j ! i) \<and>
            (\<forall>i'<i. \<not> is_external (lookup_table w) (procs j ! i')) \<longrightarrow>
            pgid j' = pid (procs j' ! i)) \<and>
         ((\<forall>i<length (procs j). \<not> is_external (lookup_table w) (procs j ! i)) \<longrightarrow> pgid j' = 0) \<and>
         (\<forall>w0 j0 k c rest. interactive w0 \<and> is_external (lookup_table w0) (procs j0 ! k) \<and>
            fork_script w0 = Fork_child c # rest \<and> 0 < c \<longrightarrow>
            map_of (pgrp (fst (launch_proc m k w0 j0))) c =
              Some (if pgid j0 = 0 then c else pgid j0) \<and>
            pgid (fst (snd (launch_proc m k w0 j0))) = pgid j0)"
proof -
  let ?n = "length (procs j)" and ?t = "lookup_table w"
  from assms(1) obtain w1 io_fd w2 j2 where
    o: "open_io m (io j) 0 [0, 1, 2] w = (w1, Inr io_fd)" and ne: "procs j \<noteq> []" and
    l: "launch_procs m ?n 0 w1 (bind_io io_fd j) = (w2, j2, None)" and
    lj: "launch_job m w j = (dispose j2 w2, j2, Returned 0)"
    by (rule launch_completesE)
  from lj assms(4) have w': "w' = dispose j2 w2" and j': "j' = j2"
    by simp_all
  have fr: "interactive w1" "lookup_table w1 = ?t"
    using open_io_frame [of m "io j" 0 "[0, 1, 2]" w] o assms(2) by simp_all
  have pg: "pgrp w' = pgrp w2"
    by (simp add: w' dispose_frame)
  have ext: "\<And>i. i < ?n \<Longrightarrow>
      is_external (lookup_table w1) (procs (bind_io io_fd j) ! i) = is_external ?t (procs j ! i)"
    using bind_io_argv [of _ j io_fd] fr(2) by (simp add: is_external_def)
  have n: "?n = length (procs (bind_io io_fd j))" and z: "pgid (bind_io io_fd j) = 0"
    using assms(3) by simp_all
  note inv = launch_procs_pgrp [OF l n fr(1)]
  have A: "\<forall>i<?n. is_external ?t (procs j ! i) \<longrightarrow>
      0 < pid (procs j' ! i) \<and> map_of (pgrp w') (pid (procs j' ! i)) = Some (pgid j')"
    using inv ext by (simp add: j' pg)
  have B: "\<forall>i<?n. is_external ?t (procs j ! i) \<and> (\<forall>i'<i. \<not> is_external ?t (procs j ! i')) \<longrightarrow>
      pgid j' = pid (procs j' ! i)"
  proof (intro allI impI, elim conjE)
    fix i assume i: "i < ?n" and ex: "is_external ?t (procs j ! i)"
      and mn: "\<forall>i'<i. \<not> is_external ?t (procs j ! i')"
    have "is_external (lookup_table w1) (procs (bind_io io_fd j) ! i)"
      using ex ext [OF i] by simp
    moreover have "\<forall>i'. 0 \<le> i' \<and> i' < i \<longrightarrow>
        \<not> is_external (lookup_table w1) (procs (bind_io io_fd j) ! i')"
      using mn ext i by auto
    ultimately show "pgid j' = pid (procs j' ! i)"
      using inv z i unfolding j' by blast
  qed
  have C: "(\<forall>i<?n. \<not> is_external ?t (procs j ! i)) \<longrightarrow> pgid j' = 0"
  proof
    assume "\<forall>i<?n. \<not> is_external ?t (procs j ! i)"
    then have "\<forall>i. 0 \<le> i \<and> i < ?n \<longrightarrow>
        \<not> is_external (lookup_table w1) (procs (bind_io io_fd j) ! i)"
      using ext by auto
    with inv z show "pgid j' = 0"
      unfolding j' by blast
  qed
  have D: "\<forall>w0 j0 k c rest. interactive w0 \<and> is_external (lookup_table w0) (procs j0 ! k) \<and>
      fork_script w0 = Fork_child c # rest \<and> 0 < c \<longrightarrow>
      map_of (pgrp (fst (launch_proc m k w0 j0))) c = Some (if pgid j0 = 0 then c else pgid j0) \<and>
      pgid (fst (snd (launch_proc m k w0 j0))) = pgid j0"
    using child_joins_group by blast
  from A B C D show ?thesis
    by blast
qed

theorem job_shares_one_process_group_witness:
  "launch_completes example_config two_forks_world cd_ls_wc_job \<and>
   interactive two_forks_world \<and> pgid cd_ls_wc_job = 0 \<and>
   map pid (procs (fst (snd (launch_job example_config two_forks_world cd_ls_wc_job)))) =
     [0, 201, 202] \<and>
   pgid (fst (snd (launch_job example_config two_forks_world cd_ls_wc_job))) = 201 \<and>
   map_of (pgrp (fst (launch_job example_config two_forks_world cd_ls_wc_job))) 201 = Some 201 \<and>
   map_of (pgrp (fst (launch_job example_config two_forks_world cd_ls_wc_job))) 202 = Some 201 \<and>
   map_of (pgrp (fst (launch_proc example_config 1 second_child_world forked_once_job))) 202 =
     Some 201"
proof -
  let ?W = "fst (launch_job example_config two_forks_world cd_ls_wc_job)"
  let ?J = "fst (snd (launch_job example_config two_forks_world cd_ls_wc_job))"
  have lc: "launch_completes example_config two_forks_world cd_ls_wc_job"
    and int: "interactive two_forks_world" and z: "pgid cd_ls_wc_job = 0"
    and pids: "map pid (procs ?J) = [0, 201, 202]"
    and p1: "pid (procs ?J ! 1) = 201" and p2: "pid (procs ?J ! 2) = 202"
    and n: "length (procs cd_ls_wc_job) = 3"
    and e0: "\<not> is_external (lookup_table two_forks_world) (procs cd_ls_wc_job ! 0)"
    and e1: "is_external (lookup_table two_forks_world) (procs cd_ls_wc_job ! 1)"
    and e2: "is_external (lookup_table two_forks_world) (procs cd_ls_wc_job ! 2)"
    and ci: "interactive second_child_world"
    and ce: "is_external (lookup_table second_child_world) (procs forked_once_job ! 1)"
    and cf: "fork_script second_child_world = Fork_child 202 # []"
    and cg: "pgid forked_once_job = 201"
    by code_simp+
  have col: "launch_job example_config two_forks_world cd_ls_wc_job =
      (?W, ?J, snd (snd (launch_job example_config two_forks_world cd_ls_wc_job)))"
    by simp
  note inst = job_shares_one_process_group [OF lc int z col]
  from inst have A: "\<And>i. i < 3 \<Longrightarrow>
      is_external (lookup_table two_forks_world) (procs cd_ls_wc_job ! i) \<Longrightarrow>
      map_of (pgrp ?W) (pid (procs ?J ! i)) = Some (pgid ?J)"
    unfolding n by blast
  from inst have B: "\<And>i. i < 3 \<Longrightarrow>
      is_external (lookup_table two_forks_world) (procs cd_ls_wc_job ! i) \<Longrightarrow>
      \<forall>i'<i. \<not> is_external (lookup_table two_forks_world) (procs cd_ls_wc_job ! i') \<Longrightarrow>
      pgid ?J = pid (procs ?J ! i)"
    unfolding n by blast
  from inst ci ce cf cg
  have D: "map_of (pgrp (fst (launch_proc example_config 1 second_child_world forked_once_job))) 202 =
      Some (if pgid forked_once_job = 0 then 202 else pgid forked_once_job)"
    by force
  have g: "pgid ?J = 201"
    using B [of 1] e0 e1 p1 by (simp add: less_Suc_eq)
  have m1: "map_of (pgrp ?W) 201 = Some 201" and m2: "map_of (pgrp ?W) 202 = Some 201"
    using A [of 1] A [of 2] e1 e2 p1 p2 g by simp_all
  from D cg have d: "map_of (pgrp (fst (launch_proc example_config 1 second_child_world
      forked_once_job))) 202 = Some 201"
    by simp
  from lc int z pids g m1 m2 d show ?thesis
    by blast
qed

subsection \<open>Descriptors left open\<close>

lemma open_io_opened:
  assumes "open_io m specs i io_fd w = (w1, Inr io_fd')"
    and "i + length specs \<le> length io_fd"
  shows "length io_fd' = length io_fd \<and> take i io_fd' = take i io_fd \<and>
     set (open_fds w1) \<subseteq> set (open_fds w) \<union> set (drop i io_fd')"
  using assms
proof (induction specs arbitrary: i io_fd w)
  case Nil
  then show ?case by simp
next
  case (Cons spec specs)
  from Cons.prems(2) have i: "i < length io_fd" by simp
  have step: "length io_fd' = length io_fd \<and> take i io_fd' = take i io_fd \<and>
      set (open_fds w1) \<subseteq> set (open_fds w) \<union> set (drop i io_fd')"
    if rec: "open_io m specs (Suc i) io_fd1 wx = (w1, Inr io_fd')"
      and len: "length io_fd1 = length io_fd" and pre: "take i io_fd1 = take i io_fd"
      and opn: "set (open_fds wx) \<subseteq> insert (io_fd1 ! i) (set (open_fds w))"
    for io_fd1 wx
  proof -
    from Cons.IH [OF rec] Cons.prems(2) len
    have l: "length io_fd' = length io_fd" and t: "take (Suc i) io_fd' = take (Suc i) io_fd1"
      and s: "set (open_fds w1) \<subseteq> set (open_fds wx) \<union> set (drop (Suc i) io_fd')"
      by simp_all
    from t have ti: "take i io_fd' = take i io_fd1"
      by (metis min.absorb1 le_add2 plus_1_eq_Suc take_take)
    have i': "i < length io_fd'" "i < length io_fd1" using l len i by simp_all
    from t i' have at_i: "io_fd' ! i = io_fd1 ! i"
      by (metis lessI nth_take)
    have "drop i io_fd' = io_fd' ! i # drop (Suc i) io_fd'"
      using i'(1) by (simp add: Cons_nth_drop_Suc)
    with s opn at_i have "set (open_fds w1) \<subseteq> set (open_fds w) \<union> set (drop i io_fd')"
      by auto
    with l ti pre show ?thesis by simp
  qed
  show ?case
  proof (cases "path spec")
    case None
    with Cons.prems(1) have "open_io m specs (Suc i) io_fd w = (w1, Inr io_fd')"
      by (simp split: if_splits)
    from step [OF this] show ?thesis by auto
  next
    case (Some f)
    show ?thesis
    proof (cases rule: sys_open_cases [of w f "oflag spec" FILE_MASK])
      case (failed wx)
      with Cons.prems(1) Some i show ?thesis by simp
    next
      case (ok rest)
      let ?fd = "lowest_unused (open_fds w)"
      let ?w' = "w\<lparr>open_script := rest, open_fds := ?fd # open_fds w,
                    trace := trace w @ [Ev_open f (oflag spec) FILE_MASK ?fd]\<rparr>"
      from Cons.prems(1) Some ok i
      have rec: "open_io m specs (Suc i) (io_fd[i := ?fd]) ?w' = (w1, Inr io_fd')"
        by (simp split: if_splits)
      from step [OF rec] i show ?thesis by simp
    qed
  qed
qed

lemma slot_closed_or_standard:
  assumes "length F = 3" and "x \<in> set F"
  shows "x \<in> set (misplaced 0 (take 3 F)) \<or> x = 0 \<or> x = 1 \<or> x = 2"
proof -
  from assms(1) obtain a b c where "F = [a, b, c]"
    by (auto simp: length_Suc_conv numeral_3_eq_3)
  with assms(2) show ?thesis by auto
qed

lemma three_slots: "length F = 3 \<Longrightarrow> set F = {F ! 0, F ! 1, F ! 2}"
  by (auto simp: length_Suc_conv numeral_3_eq_3)

lemma fd_cleanup_open:
  assumes "length F = 3"
  shows "set (open_fds (fd_cleanup F 3 w)) \<subseteq> (set (open_fds w) - set F) \<union> {0, 1, 2}"
  using slot_closed_or_standard [OF assms] by (auto simp: fd_cleanup_eq)

lemma launch_procs_open_fds:
  assumes "launch_procs m n k w j = (w', j', None)" and "n = length (procs j)" and "fds_ok j"
    and "k < n \<longrightarrow> set (open_fds w) \<subseteq>
           S \<union> {0, 1, 2} \<union>
           {fds (procs j ! k) ! 0, fds (procs j ! (n - 1)) ! 1, fds (procs j ! (n - 1)) ! 2}"
    and "\<not> k < n \<longrightarrow> set (open_fds w) \<subseteq> S \<union> {0, 1, 2}"
  shows "set (open_fds w') \<subseteq> S \<union> {0, 1, 2}"
  using assms
proof (induction "n - k" arbitrary: k w j)
  case 0
  then have "\<not> k < n" by simp
  with "0.prems" show ?case
    by (simp add: launch_procs_done)
next
  case (Suc d)
  then have kn: "k < n" by simp
  from Suc.prems(1) kn obtain w1 j1 w2 j2 where
    wp: "wire_pipe n k w j = (w1, j1, True)" and
    lp: "launch_proc m k w1 j1 = (w2, j2, None)" and
    rec: "launch_procs m n (Suc k) (fd_cleanup (fds (procs j2 ! k)) 3 w2) j2 = (w', j', None)"
    by (rule launch_procs_NoneE)
  note fr = launch_proc_frame [OF lp]
  have len1: "length (procs j1) = n" and ok1: "fds_ok j1"
    using wp Suc.prems(2,3) by (auto elim!: wire_pipe_TrueE)
  have len2: "length (procs j2) = n" and fds2: "\<And>i. i < n \<Longrightarrow> fds (procs j2 ! i) = fds (procs j1 ! i)"
    using map_fds_nth [OF fr(1)] len1 kn by auto
  have ok2: "fds_ok j2"
    using fds_ok_cong [OF fr(1)] ok1 by simp
  have d: "d = n - Suc k" using Suc.hyps(2) by simp
  let ?F = "fds (procs j1 ! k)"
  let ?wc = "fd_cleanup (fds (procs j2 ! k)) 3 w2"
  have F3: "length ?F = 3"
    using fds_ok_nth [OF ok1] len1 kn by simp
  have clean: "set (open_fds ?wc) \<subseteq> (set (open_fds w1) - set ?F) \<union> {0, 1, 2}"
    using fd_cleanup_open [OF F3, of w2] fds2 [OF kn] fr(5) by simp
  have n1: "n - 1 < n" using kn by simp
  from Suc.prems(4) kn have inv: "set (open_fds w) \<subseteq>
      S \<union> {0, 1, 2} \<union>
      {fds (procs j ! k) ! 0, fds (procs j ! (n - 1)) ! 1, fds (procs j ! (n - 1)) ! 2}"
    by simp
  have p4: "Suc k < n \<longrightarrow> set (open_fds ?wc) \<subseteq>
      S \<union> {0, 1, 2} \<union>
      {fds (procs j2 ! Suc k) ! 0, fds (procs j2 ! (n - 1)) ! 1, fds (procs j2 ! (n - 1)) ! 2}"
    and p5: "\<not> Suc k < n \<longrightarrow> set (open_fds ?wc) \<subseteq> S \<union> {0, 1, 2}"
  proof -
    from wp show "Suc k < n \<longrightarrow> set (open_fds ?wc) \<subseteq>
      S \<union> {0, 1, 2} \<union>
      {fds (procs j2 ! Suc k) ! 0, fds (procs j2 ! (n - 1)) ! 1, fds (procs j2 ! (n - 1)) ! 2}"
    proof (cases rule: wire_pipe_TrueE)
      case last
      with kn show ?thesis by auto
    next
      case (inner r wr)
      show ?thesis
      proof
        assume sk: "Suc k < n"
        have G3: "length (fds (procs j ! k)) = 3" "length (fds (procs j ! Suc k)) = 3"
          "length (fds (procs j ! (n - 1))) = 3"
          using fds_ok_nth [OF Suc.prems(3)] Suc.prems(2) kn sk n1 by auto
        have Fk: "?F = (fds (procs j ! k))[1 := wr]"
          using inner(3) kn Suc.prems(2) by (simp add: set_fd_nth)
        have Fs: "fds (procs j1 ! Suc k) = (fds (procs j ! Suc k))[0 := r]"
          using inner(3) sk Suc.prems(2) by (simp add: set_fd_nth)
        have Fl: "fds (procs j1 ! (n - 1)) ! 1 = fds (procs j ! (n - 1)) ! 1"
          "fds (procs j1 ! (n - 1)) ! 2 = fds (procs j ! (n - 1)) ! 2"
          using inner(3) n1 sk Suc.prems(2) G3 by (auto simp: set_fd_nth)
        have o1: "set (open_fds w1) = insert wr (insert r (set (open_fds w)))"
          using pipe_SomeD(1) [OF inner(2)] by simp
        have inF: "wr \<in> set ?F" "fds (procs j ! k) ! 0 \<in> set ?F"
          using Fk G3(1) three_slots [of ?F] F3 by auto
        have r: "fds (procs j2 ! Suc k) ! 0 = r"
          using fds2 [OF sk] Fs G3(2) by simp
        have l: "fds (procs j2 ! (n - 1)) ! 1 = fds (procs j ! (n - 1)) ! 1"
          "fds (procs j2 ! (n - 1)) ! 2 = fds (procs j ! (n - 1)) ! 2"
          using fds2 [OF n1] Fl by simp_all
        from clean o1 inv inF show "set (open_fds ?wc) \<subseteq>
            S \<union> {0, 1, 2} \<union>
            {fds (procs j2 ! Suc k) ! 0, fds (procs j2 ! (n - 1)) ! 1, fds (procs j2 ! (n - 1)) ! 2}"
          unfolding r l by auto
      qed
    qed
    from wp show "\<not> Suc k < n \<longrightarrow> set (open_fds ?wc) \<subseteq> S \<union> {0, 1, 2}"
    proof (cases rule: wire_pipe_TrueE)
      case (inner r wr)
      with kn show ?thesis by auto
    next
      case last
      then have "set ?F = {fds (procs j ! k) ! 0, fds (procs j ! (n - 1)) ! 1, fds (procs j ! (n - 1)) ! 2}"
        using three_slots [OF F3] by simp
      with clean inv last show ?thesis by auto
    qed
  qed
  from Suc.hyps(1) [OF d rec len2 [symmetric] ok2 p4 p5] show ?case .
qed

lemma bind_io_slots:
  assumes "fds_ok j" and "procs j \<noteq> []"
  shows "fds (procs (bind_io io_fd j) ! 0) ! 0 = io_fd ! 0"
    and "fds (procs (bind_io io_fd j) ! (length (procs j) - 1)) ! 2 = io_fd ! 2"
proof -
  let ?n = "length (procs j)"
  have n: "?n - 1 < ?n" "0 < ?n" using assms(2) by simp_all
  let ?j0 = "set_fd 0 0 (io_fd ! 0) j"
  let ?j1 = "set_fd (?n - 1) 1 (io_fd ! 1) ?j0"
  have l: "length (fds (procs j ! 0)) = 3" "length (fds (procs ?j0 ! (?n - 1))) = 3"
    "length (fds (procs ?j1 ! (?n - 1))) = 3"
    using fds_ok_nth [of j 0] fds_ok_nth [of ?j0 "?n - 1"] fds_ok_nth [of ?j1 "?n - 1"]
      assms(1) n by simp_all
  show "fds (procs (bind_io io_fd j) ! 0) ! 0 = io_fd ! 0"
    using n l by (simp add: bind_io_def Let_def set_fd_nth)
  show "fds (procs (bind_io io_fd j) ! (?n - 1)) ! 2 = io_fd ! 2"
    using n l by (simp add: bind_io_def Let_def set_fd_nth)
qed

text \<open>
  What does hold of the descriptors: a launch that runs through leaves open, outside
  \<open>{0, 1, 2}\<close>, only what was open before it.
\<close>

lemma launch_job_success_closes_descriptors:
  assumes "launch_completes m w j" and "fds_ok j" and "length (io j) = 3"
  shows "set (open_fds (fst (launch_job m w j))) \<subseteq> set (open_fds w) \<union> {0, 1, 2}"
proof -
  let ?n = "length (procs j)"
  from assms(1) obtain w1 io_fd w2 j2 where
    o: "open_io m (io j) 0 [0, 1, 2] w = (w1, Inr io_fd)" and ne: "procs j \<noteq> []" and
    l: "launch_procs m ?n 0 w1 (bind_io io_fd j) = (w2, j2, None)" and
    lj: "launch_job m w j = (dispose j2 w2, j2, Returned 0)"
    by (rule launch_completesE)
  from open_io_opened [OF o] assms(3)
  have len: "length io_fd = 3" and op: "set (open_fds w1) \<subseteq> set (open_fds w) \<union> set io_fd"
    by simp_all
  have n: "?n = length (procs (bind_io io_fd j))" and ok: "fds_ok (bind_io io_fd j)"
    using assms(2) by simp_all
  have p4: "0 < ?n \<longrightarrow> set (open_fds w1) \<subseteq>
      set (open_fds w) \<union> {0, 1, 2} \<union>
      {fds (procs (bind_io io_fd j) ! 0) ! 0, fds (procs (bind_io io_fd j) ! (?n - 1)) ! 1,
       fds (procs (bind_io io_fd j) ! (?n - 1)) ! 2}"
    using op three_slots [OF len] bind_io_slots [OF assms(2) ne, of io_fd]
      bind_io_last [OF assms(2) ne, of io_fd]
    by auto
  have p5: "\<not> 0 < ?n \<longrightarrow> set (open_fds w1) \<subseteq> set (open_fds w) \<union> {0, 1, 2}"
    using ne by simp
  from launch_procs_open_fds [OF l n ok p4 p5] show ?thesis
    by (simp add: lj dispose_frame)
qed

text \<open>
  C8. After each process launched, \<^verbatim>\<open>fd_cleanup\<close> closes the entries of its fd table that
  differ from their index, and a launch that runs through leaves no descriptor of its own
  behind (\<open>launch_job_success_closes_descriptors\<close>). But when \<^verbatim>\<open>fork\<close> fails, \<^verbatim>\<open>launch_job\<close>
  returns at once, before the \<^verbatim>\<open>fd_cleanup\<close> of the process at hand, whereas the failure of
  an \<^verbatim>\<open>open\<close> does clean up before it returns. For \<^verbatim>\<open>ls > out\<close> in a shell whose \<^verbatim>\<open>fork\<close>
  fails, descriptor 3 (the file \<^verbatim>\<open>out\<close>) is still open in the shell after \<^verbatim>\<open>launch_job\<close> has
  returned, and nothing has closed it.
\<close>

theorem fork_failure_leaks_descriptor:
  "open_fds fork_fails_world = [0, 1, 2] \<and>
   snd (snd (launch_job example_config fork_fails_world ls_out_job)) =
     Returned (M_FAILED_EXEC example_config) \<and>
   open_fds (fst (launch_job example_config fork_fails_world ls_out_job)) = [3, 0, 1, 2] \<and>
   filter is_close (trace (fst (launch_job example_config fork_fails_world ls_out_job))) = []"
  by code_simp

subsection \<open>Forks over a whole launch\<close>

lemma externals_argv:
  "length (filter (is_external t) ps) =
     length (filter (\<lambda>a. case a of [] \<Rightarrow> False | a0 # args \<Rightarrow> find_node a0 filter_command t = None)
       (map argv ps))"
  by (induction ps) (simp_all add: is_external_def)

lemma externals_cong:
  assumes "map argv ps' = map argv ps"
  shows "length (filter (is_external t) (drop k ps')) = length (filter (is_external t) (drop k ps))"
  by (simp only: externals_argv drop_map [symmetric] assms)

lemma set_fd_pid [simp]: "map pid (procs (set_fd k i v j)) = map pid (procs j)"
  by (simp add: set_fd_def map_update map_update_same)

lemma bind_io_pid: "i < length (procs j) \<Longrightarrow> pid (procs (bind_io io_fd j) ! i) = pid (procs j ! i)"
proof -
  assume i: "i < length (procs j)"
  have "map pid (procs (bind_io io_fd j)) = map pid (procs j)"
    by (simp add: bind_io_def Let_def)
  with i show ?thesis
    by (metis length_map nth_map)
qed

lemma open_io_forks:
  "filter is_fork (trace (fst (open_io m specs i io_fd w))) = filter is_fork (trace w)"
proof (induction specs arbitrary: i io_fd w)
  case Nil
  then show ?case by simp
next
  case (Cons spec specs)
  show ?case
  proof (cases "path spec")
    case None
    then show ?thesis
      by (simp add: Cons.IH fd_cleanup_eq stopif_msg_def log_event_def filter_map comp_def)
  next
    case (Some f)
    show ?thesis
    proof (cases rule: sys_open_cases [of w f "oflag spec" FILE_MASK])
      case (ok rest)
      with Some show ?thesis
        by (simp add: Cons.IH fd_cleanup_eq stopif_msg_def log_event_def filter_map comp_def)
    next
      case (failed wx)
      with Some show ?thesis
        by (simp add: Cons.IH fd_cleanup_eq stopif_msg_def log_event_def filter_map comp_def)
    qed
  qed
qed

lemma launch_proc_dispatch:
  assumes lp: "launch_proc m k w j = (w', j', None)" and k: "k < length (procs j)"
  shows "length (procs j') = length (procs j)" (is ?A)
    and "\<forall>i. i \<noteq> k \<longrightarrow> procs j' ! i = procs j ! i" (is ?B)
    and "filter is_fork (trace w') =
           filter is_fork (trace w) @
           (if is_external (lookup_table w) (procs j ! k) then [Ev_fork (pid (procs j' ! k))] else [])"
      (is ?C)
    and "if is_external (lookup_table w) (procs j ! k) then 0 < pid (procs j' ! k)
         else completed (procs j' ! k) \<and> pid (procs j' ! k) = pid (procs j ! k)" (is ?D)
proof -
  from lp have "?A \<and> ?B \<and> ?C \<and> ?D"
  proof (cases rule: launch_proc_NoneE)
    case (builtin a0 args b r)
    from call_builtin_frame [OF builtin(3)] builtin(1,2,4) k show ?thesis
      by (simp add: is_external_def)
  next
    case (forked a0 args c w1 j2)
    from fork_parent_frame(1) [OF forked(3,4)] Set_proc_group_job [OF forked(5)]
      Set_proc_group_world [OF forked(5)] forked(1,2,4,6) k
    show ?thesis
      by (simp add: is_external_def)
  qed
  then show ?A and ?B and ?C and ?D
    by blast+
qed

lemma wire_pipe_forks:
  "wire_pipe n k w j = (w1, j1, ok) \<Longrightarrow> filter is_fork (trace w1) = filter is_fork (trace w)"
  by (auto simp: wire_pipe_def pipe_def log_event_def Let_def
      split: if_splits prod.splits option.splits list.splits reply.splits)

lemma launch_procs_dispatch:
  assumes "launch_procs m n k w j = (w', j', None)" and "n = length (procs j)"
  shows "length (procs j') = n \<and>
    (\<forall>i<k. procs j' ! i = procs j ! i) \<and>
    length (filter is_fork (trace w')) =
      length (filter is_fork (trace w)) +
      length (filter (is_external (lookup_table w)) (drop k (procs j))) \<and>
    (\<forall>i. k \<le> i \<and> i < n \<longrightarrow>
       (if is_external (lookup_table w) (procs j ! i) then 0 < pid (procs j' ! i)
        else completed (procs j' ! i) \<and> pid (procs j' ! i) = pid (procs j ! i)))"
  using assms
proof (induction "n - k" arbitrary: k w j)
  case 0
  then have "\<not> k < n" by simp
  with "0.prems" show ?case
    by (auto simp: launch_procs_done)
next
  case (Suc d)
  then have kn: "k < n" by simp
  let ?t = "lookup_table w"
  from Suc.prems(1) kn obtain w1 j1 w2 j2 where
    wp: "wire_pipe n k w j = (w1, j1, True)" and
    lp: "launch_proc m k w1 j1 = (w2, j2, None)" and
    rec: "launch_procs m n (Suc k) (fd_cleanup (fds (procs j2 ! k)) 3 w2) j2 = (w', j', None)"
    by (rule launch_procs_NoneE)
  let ?wc = "fd_cleanup (fds (procs j2 ! k)) 3 w2"
  note wf = wire_pipe_frame [OF wp]
  have len1: "k < length (procs j1)"
    using wf kn Suc.prems(2) by simp
  note st = launch_proc_dispatch [OF lp len1]
  note fr = launch_proc_frame [OF lp]
  have len2: "n = length (procs j2)"
    using st(1) wf(6) Suc.prems(2) by simp
  have d: "d = n - Suc k" using Suc.hyps(2) by simp
  note IH = Suc.hyps(1) [OF d rec len2]
  note IH1 = IH [THEN conjunct1]
    and IH2 = IH [THEN conjunct2, THEN conjunct1]
    and IH3 = IH [THEN conjunct2, THEN conjunct2, THEN conjunct1]
    and IH4 = IH [THEN conjunct2, THEN conjunct2, THEN conjunct2]
  have tab: "lookup_table ?wc = ?t"
    using fr(6) wf(3) by simp
  have argv2: "map argv (procs j2) = map argv (procs j)"
    using fr(2) wf(5) by simp
  have "\<And>i. i < n \<Longrightarrow> argv (procs j2 ! i) = argv (procs j ! i)"
    using map_argv_nth [OF argv2] Suc.prems(2) by simp
  then have ext_i: "\<And>i. i < n \<Longrightarrow> is_external ?t (procs j2 ! i) = is_external ?t (procs j ! i)"
    by (rule is_external_cong)
  have ext1: "is_external (lookup_table w1) (procs j1 ! k) = is_external ?t (procs j ! k)"
    using map_argv_nth [OF wf(5)] kn Suc.prems(2) wf(3) by (simp add: is_external_def)
  have pid1: "\<And>i. i < n \<Longrightarrow> pid (procs j1 ! i) = pid (procs j ! i)"
    using wire_pipe_pids [OF wp] Suc.prems(2) by (metis length_map nth_map)
  have same_k: "procs j' ! k = procs j2 ! k"
    using IH2 by simp
  have P1: "length (procs j') = n"
    by (rule IH1)
  have P2: "\<forall>i<k. procs j' ! i = procs j ! i"
  proof (intro allI impI)
    fix i assume "i < k"
    then have "procs j' ! i = procs j2 ! i" "procs j2 ! i = procs j1 ! i" "procs j1 ! i = procs j ! i"
      using IH2 st(2) wf(7) by auto
    then show "procs j' ! i = procs j ! i" by simp
  qed
  have dr: "drop k (procs j) = procs j ! k # drop (Suc k) (procs j)"
    using kn Suc.prems(2) by (simp add: Cons_nth_drop_Suc)
  have "length (filter is_fork (trace ?wc)) =
      length (filter is_fork (trace w)) + (if is_external ?t (procs j ! k) then 1 else 0)"
    using st(3) ext1 wire_pipe_forks [OF wp] by (simp add: fd_cleanup_eq filter_map comp_def)
  moreover have "length (filter (is_external ?t) (drop (Suc k) (procs j2))) =
      length (filter (is_external ?t) (drop (Suc k) (procs j)))"
    using argv2 by (rule externals_cong)
  ultimately have P3: "length (filter is_fork (trace w')) =
      length (filter is_fork (trace w)) + length (filter (is_external ?t) (drop k (procs j)))"
    using IH3 tab by (simp add: dr)
  have P4: "\<forall>i. k \<le> i \<and> i < n \<longrightarrow>
      (if is_external ?t (procs j ! i) then 0 < pid (procs j' ! i)
       else completed (procs j' ! i) \<and> pid (procs j' ! i) = pid (procs j ! i))"
  proof (intro allI impI, elim conjE)
    fix i assume i: "k \<le> i" "i < n"
    show "if is_external ?t (procs j ! i) then 0 < pid (procs j' ! i)
       else completed (procs j' ! i) \<and> pid (procs j' ! i) = pid (procs j ! i)"
    proof (cases "i = k")
      case True
      with st(4) ext1 same_k pid1 [OF kn] show ?thesis by simp
    next
      case False
      with i have ki: "Suc k \<le> i" by simp
      have "procs j2 ! i = procs j1 ! i" using st(2) False by simp
      then have "pid (procs j2 ! i) = pid (procs j ! i)" using pid1 [OF i(2)] by simp
      moreover from IH4 ki i(2)
      have "if is_external (lookup_table ?wc) (procs j2 ! i) then 0 < pid (procs j' ! i)
         else completed (procs j' ! i) \<and> pid (procs j' ! i) = pid (procs j2 ! i)"
        by blast
      ultimately show ?thesis
        using ext_i [OF i(2)] tab by simp
    qed
  qed
  from P1 P2 P3 P4 show ?case by blast
qed

text \<open>
  Over a whole launch that runs through: \<^verbatim>\<open>fork\<close> was called once for each process that
  is no builtin and for no other; each of those processes has its child's pid, and each
  builtin process is completed and has the pid it came with.
\<close>

lemma launch_job_forks_externals:
  assumes "launch_completes m w j" and "launch_job m w j = (w', j', out)"
  shows "length (filter is_fork (trace w')) =
      length (filter is_fork (trace w)) +
      length (filter (is_external (lookup_table w)) (procs j)) \<and>
    (\<forall>i<length (procs j).
       (if is_external (lookup_table w) (procs j ! i) then 0 < pid (procs j' ! i)
        else completed (procs j' ! i) \<and> pid (procs j' ! i) = pid (procs j ! i)))"
proof -
  let ?n = "length (procs j)" and ?t = "lookup_table w"
  from assms(1) obtain w1 io_fd w2 j2 where
    o: "open_io m (io j) 0 [0, 1, 2] w = (w1, Inr io_fd)" and ne: "procs j \<noteq> []" and
    l: "launch_procs m ?n 0 w1 (bind_io io_fd j) = (w2, j2, None)" and
    lj: "launch_job m w j = (dispose j2 w2, j2, Returned 0)"
    by (rule launch_completesE)
  from lj assms(2) have w': "w' = dispose j2 w2" and j': "j' = j2"
    by simp_all
  have tab: "lookup_table w1 = ?t"
    using open_io_frame [of m "io j" 0 "[0, 1, 2]" w] o by simp
  have fk: "filter is_fork (trace w1) = filter is_fork (trace w)"
    using open_io_forks [of m "io j" 0 "[0, 1, 2]" w] o by simp
  have n: "?n = length (procs (bind_io io_fd j))"
    by simp
  have ex: "length (filter (is_external ?t) (drop 0 (procs (bind_io io_fd j)))) =
      length (filter (is_external ?t) (drop 0 (procs j)))"
    by (rule externals_cong) simp
  have exi: "\<And>i. i < ?n \<Longrightarrow>
      is_external ?t (procs (bind_io io_fd j) ! i) = is_external ?t (procs j ! i)"
    using bind_io_argv [of _ j io_fd] by (simp add: is_external_def)
  have pidb: "\<And>i. i < ?n \<Longrightarrow> pid (procs (bind_io io_fd j) ! i) = pid (procs j ! i)"
    by (simp add: bind_io_pid)
  note inv = launch_procs_dispatch [OF l n]
  note inv3 = inv [THEN conjunct2, THEN conjunct2, THEN conjunct1]
    and inv4 = inv [THEN conjunct2, THEN conjunct2, THEN conjunct2]
  have A: "length (filter is_fork (trace w')) =
      length (filter is_fork (trace w)) + length (filter (is_external ?t) (procs j))"
    using inv3 ex fk tab by (simp add: w' dispose_frame)
  have B: "\<forall>i<?n. (if is_external ?t (procs j ! i) then 0 < pid (procs j' ! i)
        else completed (procs j' ! i) \<and> pid (procs j' ! i) = pid (procs j ! i))"
    using inv4 exi pidb tab by (simp add: j')
  from A B show ?thesis by blast
qed

subsection \<open>The loop, process by process\<close>

lemma dispatch_state_SomeE:
  assumes "dispatch_state m n i k w j = Some (wi, ji)"
  obtains (here) "k < n" "k = i" "wire_pipe n k w j = (wi, ji, True)"
  | (later) w1 j1 w2 j2 where "k < n" "k \<noteq> i"
      "wire_pipe n k w j = (w1, j1, True)"
      "launch_proc m k w1 j1 = (w2, j2, None)"
      "dispatch_state m n i (Suc k) (fd_cleanup (fds (procs j2 ! k)) 3 w2) j2 = Some (wi, ji)"
  using assms
  by (subst (asm) dispatch_state.simps)
     (auto split: if_splits prod.splits bool.splits option.splits)

lemma dispatch_state_bounds:
  "dispatch_state m n i k w j = Some (wi, ji) \<Longrightarrow> k \<le> i \<and> i < n"
proof (induction "n - k" arbitrary: k w j)
  case 0
  then show ?case
    by (subst (asm) dispatch_state.simps) simp
next
  case (Suc d)
  from Suc.prems show ?case
  proof (cases rule: dispatch_state_SomeE)
    case here
    then show ?thesis by simp
  next
    case (later w1 j1 w2 j2)
    have "d = n - Suc k" using Suc.hyps(2) by simp
    from Suc.hyps(1) [OF this later(5)] show ?thesis by simp
  qed
qed

text \<open>From the state in which the loop comes to process \<open>i\<close>, the loop goes on as follows.\<close>

lemma launch_procs_from_dispatch:
  "dispatch_state m n i k w j = Some (wi, ji) \<Longrightarrow>
   launch_procs m n k w j =
     (case launch_proc m i wi ji of
        (w2, j2, Some out) \<Rightarrow> (w2, j2, Some out)
      | (w2, j2, None) \<Rightarrow> launch_procs m n (Suc i) (fd_cleanup (fds (procs j2 ! i)) 3 w2) j2)"
proof (induction "n - k" arbitrary: k w j)
  case 0
  then show ?case
    by (subst (asm) dispatch_state.simps) simp
next
  case (Suc d)
  from Suc.prems show ?case
  proof (cases rule: dispatch_state_SomeE)
    case here
    then show ?thesis
      by (subst launch_procs.simps) simp
  next
    case (later w1 j1 w2 j2)
    have "d = n - Suc k" using Suc.hyps(2) by simp
    from Suc.hyps(1) [OF this later(5)] later(1,3,4) show ?thesis
      by (subst launch_procs.simps) simp
  qed
qed



lemma set_fd_status [simp]:
  "map completed (procs (set_fd k i v j)) = map completed (procs j)"
  "map exit_code (procs (set_fd k i v j)) = map exit_code (procs j)"
  by (simp_all add: set_fd_def map_update map_update_same)

lemma wire_pipe_status:
  assumes "wire_pipe n k w j = (w1, j1, ok)" and "l < length (procs j)"
  shows "pid (procs j1 ! l) = pid (procs j ! l)"
    "completed (procs j1 ! l) = completed (procs j ! l)"
    "exit_code (procs j1 ! l) = exit_code (procs j ! l)"
proof -
  from assms(1) have "map pid (procs j1) = map pid (procs j) \<and>
      map completed (procs j1) = map completed (procs j) \<and>
      map exit_code (procs j1) = map exit_code (procs j)"
    by (auto simp: wire_pipe_def split: if_splits prod.splits option.splits)
  with assms(2) show "pid (procs j1 ! l) = pid (procs j ! l)"
    "completed (procs j1 ! l) = completed (procs j ! l)"
    "exit_code (procs j1 ! l) = exit_code (procs j ! l)"
    by (metis length_map nth_map)+
qed

lemma bind_io_status:
  assumes "l < length (procs j)"
  shows "pid (procs (bind_io io_fd j) ! l) = pid (procs j ! l)"
    "completed (procs (bind_io io_fd j) ! l) = completed (procs j ! l)"
    "exit_code (procs (bind_io io_fd j) ! l) = exit_code (procs j ! l)"
proof -
  have "map pid (procs (bind_io io_fd j)) = map pid (procs j) \<and>
      map completed (procs (bind_io io_fd j)) = map completed (procs j) \<and>
      map exit_code (procs (bind_io io_fd j)) = map exit_code (procs j)"
    by (simp add: bind_io_def Let_def)
  with assms show "pid (procs (bind_io io_fd j) ! l) = pid (procs j ! l)"
    "completed (procs (bind_io io_fd j) ! l) = completed (procs j ! l)"
    "exit_code (procs (bind_io io_fd j) ! l) = exit_code (procs j ! l)"
    by (metis length_map nth_map)+
qed

lemma take_drop_step:
  "k < i \<Longrightarrow> k < length ps \<Longrightarrow>
   take (i - k) (drop k ps) = ps ! k # take (i - Suc k) (drop (Suc k) ps)"
proof -
  assume a: "k < i" "k < length ps"
  then have "i - k = Suc (i - Suc k)" by simp
  moreover from a have "drop k ps = ps ! k # drop (Suc k) ps"
    by (simp add: Cons_nth_drop_Suc)
  ultimately show ?thesis by simp
qed

lemma dispatch_state_frame:
  assumes "dispatch_state m n i k w j = Some (wi, ji)" and "n = length (procs j)"
  shows "length (procs ji) = n \<and> lookup_table wi = lookup_table w \<and>
    map argv (procs ji) = map argv (procs j) \<and>
    (\<forall>l<k. procs ji ! l = procs j ! l) \<and>
    filter is_fork (trace wi) =
      filter is_fork (trace w) @
      map (Ev_fork \<circ> pid) (filter (is_external (lookup_table w)) (take (i - k) (drop k (procs ji)))) \<and>
    (\<forall>l. k \<le> l \<and> l < i \<longrightarrow>
       (if is_external (lookup_table w) (procs j ! l) then 0 < pid (procs ji ! l)
        else completed (procs ji ! l) \<and> pid (procs ji ! l) = pid (procs j ! l))) \<and>
    (\<forall>l. i \<le> l \<and> l < n \<longrightarrow>
       pid (procs ji ! l) = pid (procs j ! l) \<and>
       completed (procs ji ! l) = completed (procs j ! l) \<and>
       exit_code (procs ji ! l) = exit_code (procs j ! l))"
  using assms
proof (induction "n - k" arbitrary: k w j)
  case 0
  then show ?case
    by (subst (asm) dispatch_state.simps) simp
next
  case (Suc d)
  let ?t = "lookup_table w"
  from Suc.prems(1) show ?case
  proof (cases rule: dispatch_state_SomeE)
    case here
    note wf = wire_pipe_frame [OF here(3)]
    have "\<forall>l. i \<le> l \<and> l < n \<longrightarrow>
       pid (procs ji ! l) = pid (procs j ! l) \<and>
       completed (procs ji ! l) = completed (procs j ! l) \<and>
       exit_code (procs ji ! l) = exit_code (procs j ! l)"
      using wire_pipe_status [OF here(3)] Suc.prems(2) by simp
    moreover have "filter is_fork (trace wi) = filter is_fork (trace w)"
      by (rule wire_pipe_forks [OF here(3)])
    ultimately show ?thesis
      using wf(3,5,6,7) here(2) Suc.prems(2) by auto
  next
    case (later w1 j1 w2 j2)
    note kn = later(1) and wp = later(3) and lp = later(4) and rec = later(5)
    let ?wc = "fd_cleanup (fds (procs j2 ! k)) 3 w2"
    from dispatch_state_bounds [OF rec] have ki: "Suc k \<le> i" and "i < n" by simp_all
    note wf = wire_pipe_frame [OF wp]
    have len1: "k < length (procs j1)"
      using wf kn Suc.prems(2) by simp
    note st = launch_proc_dispatch [OF lp len1]
    note fr = launch_proc_frame [OF lp]
    have len2: "n = length (procs j2)"
      using st(1) wf(6) Suc.prems(2) by simp
    have d: "d = n - Suc k" using Suc.hyps(2) by simp
    note IH = Suc.hyps(1) [OF d rec len2]
    note IH1 = IH [THEN conjunct1]
      and IH2 = IH [THEN conjunct2, THEN conjunct1]
      and IH3 = IH [THEN conjunct2, THEN conjunct2, THEN conjunct1]
      and IH4 = IH [THEN conjunct2, THEN conjunct2, THEN conjunct2, THEN conjunct1]
      and IH5 = IH [THEN conjunct2, THEN conjunct2, THEN conjunct2, THEN conjunct2, THEN conjunct1]
      and IH6 = IH [THEN conjunct2, THEN conjunct2, THEN conjunct2, THEN conjunct2, THEN conjunct2,
          THEN conjunct1]
      and IH7 = IH [THEN conjunct2, THEN conjunct2, THEN conjunct2, THEN conjunct2, THEN conjunct2,
          THEN conjunct2]
    have tab: "lookup_table ?wc = ?t"
      using fr(6) wf(3) by simp
    have argv2: "map argv (procs j2) = map argv (procs j)"
      using fr(2) wf(5) by simp
    have argvi: "map argv (procs ji) = map argv (procs j)"
      using IH3 argv2 by simp
    have ext_2: "\<And>l. l < n \<Longrightarrow> is_external ?t (procs j2 ! l) = is_external ?t (procs j ! l)"
    proof -
      fix l assume "l < n"
      then have "argv (procs j2 ! l) = argv (procs j ! l)"
        using map_argv_nth [OF argv2] Suc.prems(2) by simp
      then show "is_external ?t (procs j2 ! l) = is_external ?t (procs j ! l)"
        by (rule is_external_cong)
    qed
    have ext_i: "\<And>l. l < n \<Longrightarrow> is_external ?t (procs ji ! l) = is_external ?t (procs j ! l)"
    proof -
      fix l assume "l < n"
      then have "argv (procs ji ! l) = argv (procs j ! l)"
        using map_argv_nth [OF argvi] Suc.prems(2) by simp
      then show "is_external ?t (procs ji ! l) = is_external ?t (procs j ! l)"
        by (rule is_external_cong)
    qed
    have ext1: "is_external (lookup_table w1) (procs j1 ! k) = is_external ?t (procs j ! k)"
      using map_argv_nth [OF wf(5)] kn Suc.prems(2) wf(3) by (simp add: is_external_def)
    note ws = wire_pipe_status [OF wp]
    have same_k: "procs ji ! k = procs j2 ! k"
      using IH4 by simp
    have P1: "length (procs ji) = n"
      by (rule IH1)
    have P2: "lookup_table wi = ?t"
      using IH2 tab by simp
    have P4: "\<forall>l<k. procs ji ! l = procs j ! l"
    proof (intro allI impI)
      fix l assume "l < k"
      then have "procs ji ! l = procs j2 ! l" "procs j2 ! l = procs j1 ! l" "procs j1 ! l = procs j ! l"
        using IH4 st(2) wf(7) by auto
      then show "procs ji ! l = procs j ! l" by simp
    qed
    have fc: "filter is_fork (trace ?wc) =
        filter is_fork (trace w) @
        (if is_external ?t (procs j ! k) then [Ev_fork (pid (procs j2 ! k))] else [])"
      using st(3) ext1 wire_pipe_forks [OF wp] by (simp add: fd_cleanup_eq filter_map comp_def)
    have td: "take (i - k) (drop k (procs ji)) =
        procs ji ! k # take (i - Suc k) (drop (Suc k) (procs ji))"
      using ki kn P1 by (intro take_drop_step) simp_all
    have P5: "filter is_fork (trace wi) =
        filter is_fork (trace w) @
        map (Ev_fork \<circ> pid) (filter (is_external ?t) (take (i - k) (drop k (procs ji))))"
      using IH5 fc tab ext_i [OF kn] same_k by (simp add: td)
    have P6: "\<forall>l. k \<le> l \<and> l < i \<longrightarrow>
       (if is_external ?t (procs j ! l) then 0 < pid (procs ji ! l)
        else completed (procs ji ! l) \<and> pid (procs ji ! l) = pid (procs j ! l))"
    proof (intro allI impI, elim conjE)
      fix l assume l: "k \<le> l" "l < i"
      with \<open>i < n\<close> have ln: "l < n" by simp
      then have lj: "l < length (procs j)" using Suc.prems(2) by simp
      show "if is_external ?t (procs j ! l) then 0 < pid (procs ji ! l)
        else completed (procs ji ! l) \<and> pid (procs ji ! l) = pid (procs j ! l)"
      proof (cases "l = k")
        case True
        with st(4) ext1 same_k ws(1) [OF lj] show ?thesis by simp
      next
        case False
        with l have kl: "Suc k \<le> l" by simp
        have "procs j2 ! l = procs j1 ! l" using st(2) False by simp
        then have "pid (procs j2 ! l) = pid (procs j ! l)" using ws(1) [OF lj] by simp
        moreover from IH6 kl l(2)
        have "if is_external (lookup_table ?wc) (procs j2 ! l) then 0 < pid (procs ji ! l)
           else completed (procs ji ! l) \<and> pid (procs ji ! l) = pid (procs j2 ! l)"
          by blast
        ultimately show ?thesis
          using ext_2 [OF ln] tab by simp
      qed
    qed
    have P7: "\<forall>l. i \<le> l \<and> l < n \<longrightarrow>
       pid (procs ji ! l) = pid (procs j ! l) \<and>
       completed (procs ji ! l) = completed (procs j ! l) \<and>
       exit_code (procs ji ! l) = exit_code (procs j ! l)"
    proof (intro allI impI, elim conjE)
      fix l assume l: "i \<le> l" "l < n"
      then have lj: "l < length (procs j)" using Suc.prems(2) by simp
      from l ki have "l \<noteq> k" by simp
      then have "procs j2 ! l = procs j1 ! l" using st(2) by simp
      moreover from IH7 l have "pid (procs ji ! l) = pid (procs j2 ! l) \<and>
         completed (procs ji ! l) = completed (procs j2 ! l) \<and>
         exit_code (procs ji ! l) = exit_code (procs j2 ! l)"
        by blast
      ultimately show "pid (procs ji ! l) = pid (procs j ! l) \<and>
         completed (procs ji ! l) = completed (procs j ! l) \<and>
         exit_code (procs ji ! l) = exit_code (procs j ! l)"
        using ws [OF lj] by simp
    qed
    from P1 P2 argvi P4 P5 P6 P7 show ?thesis by blast
  qed
qed

lemma at_dispatch_SomeE:
  assumes "at_dispatch m w j i = Some (wi, ji)"
  obtains w1 io_fd where
    "open_io m (io j) 0 [0, 1, 2] w = (w1, Inr io_fd)" "procs j \<noteq> []"
    "dispatch_state m (length (procs j)) i 0 w1 (bind_io io_fd j) = Some (wi, ji)"
  using assms
  by (auto simp: at_dispatch_def split: prod.splits sum.splits if_splits)

lemma at_dispatch_frame:
  assumes "at_dispatch m w j i = Some (wi, ji)"
  shows "i < length (procs j)" (is ?A)
    and "length (procs ji) = length (procs j)" (is ?B)
    and "lookup_table wi = lookup_table w" (is ?C)
    and "map argv (procs ji) = map argv (procs j)" (is ?D)
    and "filter is_fork (trace wi) =
      filter is_fork (trace w) @
      map (Ev_fork \<circ> pid) (filter (is_external (lookup_table w)) (take i (procs ji)))" (is ?E)
    and "\<forall>l<i. (if is_external (lookup_table w) (procs j ! l) then 0 < pid (procs ji ! l)
        else completed (procs ji ! l) \<and> pid (procs ji ! l) = pid (procs j ! l))" (is ?F)
    and "\<forall>l. i \<le> l \<and> l < length (procs j) \<longrightarrow>
       pid (procs ji ! l) = pid (procs j ! l) \<and>
       completed (procs ji ! l) = completed (procs j ! l) \<and>
       exit_code (procs ji ! l) = exit_code (procs j ! l)" (is ?G)
proof -
  let ?n = "length (procs j)" and ?t = "lookup_table w"
  from assms obtain w1 io_fd where
    o: "open_io m (io j) 0 [0, 1, 2] w = (w1, Inr io_fd)" and ne: "procs j \<noteq> []" and
    ds: "dispatch_state m ?n i 0 w1 (bind_io io_fd j) = Some (wi, ji)"
    by (rule at_dispatch_SomeE)
  let ?j0 = "bind_io io_fd j"
  have tab: "lookup_table w1 = ?t"
    using open_io_frame [of m "io j" 0 "[0, 1, 2]" w] o by simp
  have fk: "filter is_fork (trace w1) = filter is_fork (trace w)"
    using open_io_forks [of m "io j" 0 "[0, 1, 2]" w] o by simp
  have n: "?n = length (procs ?j0)"
    by simp
  note F = dispatch_state_frame [OF ds n]
  note F1 = F [THEN conjunct1]
    and F2 = F [THEN conjunct2, THEN conjunct1]
    and F3 = F [THEN conjunct2, THEN conjunct2, THEN conjunct1]
    and F5 = F [THEN conjunct2, THEN conjunct2, THEN conjunct2, THEN conjunct2, THEN conjunct1]
    and F6 = F [THEN conjunct2, THEN conjunct2, THEN conjunct2, THEN conjunct2, THEN conjunct2,
        THEN conjunct1]
    and F7 = F [THEN conjunct2, THEN conjunct2, THEN conjunct2, THEN conjunct2, THEN conjunct2,
        THEN conjunct2]
  have exi: "\<And>l. l < ?n \<Longrightarrow> is_external ?t (procs ?j0 ! l) = is_external ?t (procs j ! l)"
    using bind_io_argv [of _ j io_fd] by (simp add: is_external_def)
  note bs = bind_io_status [of _ j io_fd]
  show ?A using dispatch_state_bounds [OF ds] by simp
  then have i: "i < ?n" .
  show ?B by (rule F1)
  show ?C using F2 tab by simp
  show ?D using F3 by simp
  show ?E using F5 fk tab by simp
  show ?F
  proof (intro allI impI)
    fix l assume l: "l < i"
    with i have ln: "l < ?n" by simp
    from F6 l have "if is_external (lookup_table w1) (procs ?j0 ! l) then 0 < pid (procs ji ! l)
        else completed (procs ji ! l) \<and> pid (procs ji ! l) = pid (procs ?j0 ! l)"
      by simp
    then show "if is_external ?t (procs j ! l) then 0 < pid (procs ji ! l)
        else completed (procs ji ! l) \<and> pid (procs ji ! l) = pid (procs j ! l)"
      using exi [OF ln] bs(1) [OF ln] tab by simp
  qed
  show ?G
  proof (intro allI impI, elim conjE)
    fix l assume l: "i \<le> l" "l < ?n"
    from F7 l have "pid (procs ji ! l) = pid (procs ?j0 ! l) \<and>
       completed (procs ji ! l) = completed (procs ?j0 ! l) \<and>
       exit_code (procs ji ! l) = exit_code (procs ?j0 ! l)"
      by simp
    then show "pid (procs ji ! l) = pid (procs j ! l) \<and>
       completed (procs ji ! l) = completed (procs j ! l) \<and>
       exit_code (procs ji ! l) = exit_code (procs j ! l)"
      using bs [OF l(2)] by simp
  qed
qed





subsection \<open>A fork that fails in mid-launch\<close>

lemma launch_job_from_dispatch:
  assumes "at_dispatch m w j k = Some (wk, jk)"
  shows "launch_job m w j =
     (case launch_proc m k wk jk of
        (w2, j2, Some out) \<Rightarrow> (w2, j2, out)
      | (w2, j2, None) \<Rightarrow>
          (case launch_procs m (length (procs j)) (Suc k) (fd_cleanup (fds (procs j2 ! k)) 3 w2) j2 of
             (w3, j3, Some out) \<Rightarrow> (w3, j3, out)
           | (w3, j3, None) \<Rightarrow> (dispose j3 w3, j3, Returned 0)))"
proof -
  from assms obtain w1 io_fd where
    o: "open_io m (io j) 0 [0, 1, 2] w = (w1, Inr io_fd)" and ne: "procs j \<noteq> []" and
    ds: "dispatch_state m (length (procs j)) k 0 w1 (bind_io io_fd j) = Some (wk, jk)"
    by (rule at_dispatch_SomeE)
  show ?thesis
    using o ne launch_procs_from_dispatch [OF ds]
    by (simp add: launch_job_def split: prod.splits option.splits)
qed

text \<open>
  C5, as amended. When the loop comes to a process \<open>k\<close> that is no builtin and \<^verbatim>\<open>fork\<close>
  fails there, \<^verbatim>\<open>launch_job\<close> returns at once with \<^verbatim>\<open>M_FAILED_EXEC\<close>: after the state the
  loop had reached, the trace has the failed \<^verbatim>\<open>fork\<close> and the message and nothing else, no
  descriptor is closed and no process group changed. The job is returned as it stood:
  the processes before \<open>k\<close> that were forked have their pids, the builtins among them are
  completed, and the processes from \<open>k\<close> on are as they came. The calls of \<^verbatim>\<open>fork\<close> are those
  for the processes before \<open>k\<close> that are no builtins, and the failed one. The code returned
  is apart from the \<^verbatim>\<open>M_FAILED_IO\<close> of a failed \<^verbatim>\<open>open\<close> whenever the two macros have
  different values, but it is no code of its own: it is the status with which a child
  ends when its \<^verbatim>\<open>exec\<close> fails.
\<close>

theorem fork_failure_aborts_launch:
  assumes "at_dispatch m w j k = Some (wk, jk)"
    and "is_external (lookup_table wk) (procs jk ! k)"
    and "snd (fork wk) < 0"
    and "launch_job m w j = (w', j', out)"
  shows "out = Returned (M_FAILED_EXEC m) \<and> j' = jk \<and>
    trace w' =
      trace wk @
      [Ev_fork (- 1), Ev_stderr (''Could not fork process: '' @ strerror m (errno w'))] \<and>
    open_fds w' = open_fds wk \<and> pgrp w' = pgrp wk \<and>
    filter is_fork (trace w') =
      filter is_fork (trace w) @
      map (Ev_fork \<circ> pid) (filter (is_external (lookup_table w)) (take k (procs j'))) @
      [Ev_fork (- 1)] \<and>
    (\<forall>i<k. if is_external (lookup_table w) (procs j ! i) then 0 < pid (procs j' ! i)
        else completed (procs j' ! i) \<and> pid (procs j' ! i) = pid (procs j ! i)) \<and>
    (\<forall>i. k \<le> i \<and> i < length (procs j) \<longrightarrow>
       pid (procs j' ! i) = pid (procs j ! i) \<and>
       completed (procs j' ! i) = completed (procs j ! i)) \<and>
    (M_FAILED_EXEC m \<noteq> M_FAILED_IO m \<longrightarrow> out \<noteq> Returned (M_FAILED_IO m)) \<and>
    (snd (exec_proc m p w0) = Child_exec (argv p) \<or>
     snd (exec_proc m p w0) = Child_exited (M_FAILED_EXEC m))"
proof -
  obtain wf c where fk: "fork wk = (wf, c)"
    by (cases "fork wk")
  with assms(3) have neg: "c < 0" by simp
  note ff = fork_failedD [OF fk neg]
  from assms(2) obtain a0 args where
    a: "argv (procs jk ! k) = a0 # args" and
    fn: "find_node a0 filter_command (lookup_table wk) = None"
    by (auto simp: is_external_def split: list.splits)
  have lp: "launch_proc m k wk jk =
      (stopif_msg (''Could not fork process: '' @ strerror m (errno wf)) wf, jk,
       Some (Returned (M_FAILED_EXEC m)))"
    using a fn fk neg by (simp add: launch_proc_def Let_def)
  have "launch_job m w j =
      (stopif_msg (''Could not fork process: '' @ strerror m (errno wf)) wf, jk,
       Returned (M_FAILED_EXEC m))"
    by (simp add: launch_job_from_dispatch [OF assms(1)] lp)
  with assms(4) have
    w': "w' = stopif_msg (''Could not fork process: '' @ strerror m (errno wf)) wf" and
    j': "j' = jk" and out: "out = Returned (M_FAILED_EXEC m)"
    by simp_all
  note F = at_dispatch_frame [OF assms(1)]
  have tr: "trace w' =
      trace wk @
      [Ev_fork (- 1), Ev_stderr (''Could not fork process: '' @ strerror m (errno w'))]"
    using ff(1,2) by (simp add: w' stopif_msg_def log_event_def)
  have fds: "open_fds w' = open_fds wk" and grp: "pgrp w' = pgrp wk"
    using ff(3,4) by (simp_all add: w' stopif_msg_def log_event_def)
  have forks: "filter is_fork (trace w') =
      filter is_fork (trace w) @
      map (Ev_fork \<circ> pid) (filter (is_external (lookup_table w)) (take k (procs j'))) @
      [Ev_fork (- 1)]"
    using F(5) by (simp add: tr j')
  have before: "\<forall>i<k. if is_external (lookup_table w) (procs j ! i) then 0 < pid (procs j' ! i)
        else completed (procs j' ! i) \<and> pid (procs j' ! i) = pid (procs j ! i)"
    using F(6) by (simp add: j')
  have after: "\<forall>i. k \<le> i \<and> i < length (procs j) \<longrightarrow>
       pid (procs j' ! i) = pid (procs j ! i) \<and>
       completed (procs j' ! i) = completed (procs j ! i)"
    using F(7) by (simp add: j')
  have io: "M_FAILED_EXEC m \<noteq> M_FAILED_IO m \<longrightarrow> out \<noteq> Returned (M_FAILED_IO m)"
    by (simp add: out)
  from out j' tr fds grp forks before after io exec_proc_outcome [of m p w0] show ?thesis
    by blast
qed

theorem fork_failure_aborts_launch_witness:
  "snd (snd (launch_job example_config second_fork_fails_world ls_wc_job)) = Returned 2 \<and>
   trace (fst (launch_job example_config second_fork_fails_world ls_wc_job)) =
     [Ev_pipe 3 4, Ev_fork 201, Ev_setpgid 201 201, Ev_tcsetpgrp 0 201, Ev_close 4,
      Ev_fork (- 1), Ev_stderr ''Could not fork process: errno 11''] \<and>
   open_fds (fst (launch_job example_config second_fork_fails_world ls_wc_job)) = [3, 0, 1, 2] \<and>
   filter is_fork (trace (fst (launch_job example_config second_fork_fails_world ls_wc_job))) =
     [Ev_fork 201, Ev_fork (- 1)] \<and>
   0 < pid (procs (fst (snd (launch_job example_config second_fork_fails_world ls_wc_job))) ! 0) \<and>
   pid (procs (fst (snd (launch_job example_config second_fork_fails_world ls_wc_job))) ! 1) = 0 \<and>
   snd (snd (launch_job example_config second_fork_fails_world ls_wc_job)) \<noteq>
     Returned (M_FAILED_IO example_config) \<and>
   snd (snd (launch_job example_config open_fails_world cat_job)) =
     Returned (M_FAILED_IO example_config)"
proof -
  let ?L = "launch_job example_config second_fork_fails_world ls_wc_job"
  let ?W = "fst ?L" and ?J = "fst (snd ?L)"
  define D where "D = the (at_dispatch example_config second_fork_fails_world ls_wc_job 1)"
  have ad: "at_dispatch example_config second_fork_fails_world ls_wc_job 1 = Some (fst D, snd D)"
    and ext: "is_external (lookup_table (fst D)) (procs (snd D) ! 1)"
    and neg: "snd (fork (fst D)) < 0"
    unfolding D_def by code_simp+
  have col: "?L = (?W, ?J, snd (snd ?L))"
    by simp
  note inst = fork_failure_aborts_launch [OF ad ext neg col]
  note c1 = inst [THEN conjunct1]
    and c3 = inst [THEN conjunct2, THEN conjunct2, THEN conjunct1]
    and c4 = inst [THEN conjunct2, THEN conjunct2, THEN conjunct2, THEN conjunct1]
    and c6 = inst [THEN conjunct2, THEN conjunct2, THEN conjunct2, THEN conjunct2, THEN conjunct2,
        THEN conjunct1]
    and c7 = inst [THEN conjunct2, THEN conjunct2, THEN conjunct2, THEN conjunct2, THEN conjunct2,
        THEN conjunct2, THEN conjunct1]
    and c8 = inst [THEN conjunct2, THEN conjunct2, THEN conjunct2, THEN conjunct2, THEN conjunct2,
        THEN conjunct2, THEN conjunct2, THEN conjunct1]
    and c9 = inst [THEN conjunct2, THEN conjunct2, THEN conjunct2, THEN conjunct2, THEN conjunct2,
        THEN conjunct2, THEN conjunct2, THEN conjunct2, THEN conjunct1]
  have code: "M_FAILED_EXEC example_config = 2"
    and differ: "M_FAILED_EXEC example_config \<noteq> M_FAILED_IO example_config"
    and io: "snd (snd (launch_job example_config open_fails_world cat_job)) =
      Returned (M_FAILED_IO example_config)"
    and e0: "is_external (lookup_table second_fork_fails_world) (procs ls_wc_job ! 0)"
    and p1: "pid (procs ls_wc_job ! 1) = 0"
    and len: "1 < length (procs ls_wc_job)"
    by code_simp+
  have t: "trace (fst D) @
      [Ev_fork (- 1), Ev_stderr (''Could not fork process: '' @ strerror example_config (errno ?W))] =
      [Ev_pipe 3 4, Ev_fork 201, Ev_setpgid 201 201, Ev_tcsetpgrp 0 201, Ev_close 4,
       Ev_fork (- 1), Ev_stderr ''Could not fork process: errno 11'']"
    and o: "open_fds (fst D) = [3, 0, 1, 2]"
    and f: "filter is_fork (trace second_fork_fails_world) @
      map (Ev_fork \<circ> pid)
        (filter (is_external (lookup_table second_fork_fails_world)) (take 1 (procs ?J))) @
      [Ev_fork (- 1)] = [Ev_fork 201, Ev_fork (- 1)]"
    unfolding D_def by code_simp+
  show ?thesis
  proof (intro conjI)
    show "snd (snd ?L) = Returned 2"
      using c1 code by simp
    show "trace ?W =
        [Ev_pipe 3 4, Ev_fork 201, Ev_setpgid 201 201, Ev_tcsetpgrp 0 201, Ev_close 4,
         Ev_fork (- 1), Ev_stderr ''Could not fork process: errno 11'']"
      using c3 t by (rule trans)
    show "open_fds ?W = [3, 0, 1, 2]"
      using c4 o by (rule trans)
    show "filter is_fork (trace ?W) = [Ev_fork 201, Ev_fork (- 1)]"
      using c6 f by (rule trans)
    show "0 < pid (procs ?J ! 0)"
      using c7 e0 by simp
    show "pid (procs ?J ! 1) = 0"
      using c8 p1 len by simp
    show "snd (snd ?L) \<noteq> Returned (M_FAILED_IO example_config)"
      using c9 differ by simp
    show "snd (snd (launch_job example_config open_fails_world cat_job)) =
        Returned (M_FAILED_IO example_config)"
      by (rule io)
  qed
qed

text \<open>
  The two failures on one job, \<^verbatim>\<open>ls > out\<close>: the shell whose \<^verbatim>\<open>fork\<close> fails returns 2, and
  the child whose \<^verbatim>\<open>exec\<close> fails ends with the status 2.
\<close>

theorem fork_failure_code_is_exec_failure_code:
  "snd (snd (launch_job example_config fork_fails_world ls_out_job)) = Returned 2 \<and>
   snd (snd (launch_job example_config exec_fails_world ls_out_job)) = Child_exited 2"
  by code_simp

end
